theory Spec2Isabelle
  imports Main "HOL-Library.Word"
begin

unbundle bit_operations_syntax

section \<open>The service supervisor of init\_advanced.c\<close>

text \<open>
  A shallow embedding of the service management, child reaping, signal handling and
  shutdown code of \<^verbatim>\<open>exercises/advanced/09_custom_init/src/init_advanced.c\<close>.

  The program is a single process whose state is a set of C globals; the embedding keeps
  them in one record that every function takes and returns. Everything the program asks
  of the operating system goes through a system call; the answers of the operating
  system are not determined by the program, so they are a parameter of the model (the
  record \<open>env\<close>): the answer to the \<open>n\<close>-th system call is an arbitrary function of
  \<open>n\<close> and of the call's arguments. Each call is appended to a trace, which is what
  the outside world sees of the supervisor. Signals are asynchronous: the environment
  also says which signals arrive during each call, and their handlers run before the
  call returns, so the flags they write can change under any call. The text written by
  \<^verbatim>\<open>log_msg\<close> and \<^verbatim>\<open>printf\<close>, and the clock reads that stamp it, are not
  part of the model.
\<close>

subsection \<open>Constants and data structures\<close>

definition MAX_SERVICES :: nat where "MAX_SERVICES = 32"
definition MAX_NAME :: nat where "MAX_NAME = 64"
definition MAX_PATH :: nat where "MAX_PATH = 256"
definition SERVICES_DIR :: string where "SERVICES_DIR = ''/etc/init.d''"
definition RUNLEVEL_SINGLE :: int where "RUNLEVEL_SINGLE = 1"
definition RUNLEVEL_FULL :: int where "RUNLEVEL_FULL = 5"

text \<open>The service states \<^verbatim>\<open>SVC_STOPPED = 0\<close> ... \<^verbatim>\<open>SVC_FAILED = 4\<close>;
  a zeroed structure is in state \<open>SVC_STOPPED\<close>.\<close>

datatype svc_state = SVC_STOPPED | SVC_STARTING | SVC_RUNNING | SVC_STOPPING | SVC_FAILED

definition SVC_FLAG_RESPAWN :: "32 word" where "SVC_FLAG_RESPAWN = push_bit 0 1"
definition SVC_FLAG_WAIT :: "32 word" where "SVC_FLAG_WAIT = push_bit 1 1"
definition SVC_FLAG_CRITICAL :: "32 word" where "SVC_FLAG_CRITICAL = push_bit 2 1"
definition SVC_FLAG_ONESHOT :: "32 word" where "SVC_FLAG_ONESHOT = push_bit 3 1"

text \<open>\<^verbatim>\<open>struct service\<close>. The dependency fields \<^verbatim>\<open>depends\<close> and
  \<^verbatim>\<open>depend_count\<close> are only ever zeroed by the program and are left out.
  The \<^verbatim>\<open>int\<close> fields are integers here; the program holds 32-bit values in them.
  \<open>restart_count\<close> is only ever incremented below \<open>max_restarts\<close>, so it cannot
  overflow.\<close>

record service =
  name :: string
  cmd :: string
  pidfile :: string
  runlevel :: int
  flags :: "32 word"
  state :: svc_state
  pid :: int
  start_time :: int
  restart_count :: int
  max_restarts :: int
  restart_delay :: int

datatype signal = SIGHUP | SIGINT | SIGUSR1 | SIGKILL | SIGTERM | SIGCHLD

datatype reboot_cmd = LINUX_REBOOT_CMD_RESTART | LINUX_REBOOT_CMD_POWER_OFF

text \<open>The status that \<^verbatim>\<open>waitpid\<close> stores: \<open>Exited c\<close> when
  \<^verbatim>\<open>WIFEXITED\<close> holds with \<^verbatim>\<open>WEXITSTATUS = c\<close>, \<open>Signaled n\<close> otherwise.\<close>

datatype wstatus = Exited int | Signaled int

text \<open>The system calls of the supervisor. \<open>Ev_fork c r\<close> is a \<^verbatim>\<open>fork()\<close> that
  returned \<open>r\<close> to the supervisor; when a child was created, the child resets the
  dispositions of SIGCHLD, SIGTERM and SIGUSR1 and executes \<^verbatim>\<open>/bin/sh -c c\<close>
  (leaving with code 127 if that fails). \<open>Ev_probe p\<close> is \<^verbatim>\<open>kill(p, 0)\<close>;
  the flag of \<open>Ev_waitpid\<close> is \<^verbatim>\<open>WNOHANG\<close>.\<close>

datatype event =
    Ev_access string
  | Ev_fork string int
  | Ev_time
  | Ev_waitpid int bool
  | Ev_kill int signal
  | Ev_probe int
  | Ev_usleep int
  | Ev_sleep int
  | Ev_write int char
  | Ev_close int
  | Ev_sync
  | Ev_umount string
  | Ev_fclose_log
  | Ev_reboot reboot_cmd

text \<open>The operating system, as far as the supervisor can tell: what the system call
  number \<open>n\<close> of the run returns, and which signals are delivered to the supervisor
  while that call is in progress.\<close>

record env =
  access_x :: "nat \<Rightarrow> string \<Rightarrow> bool"
  fork_pid :: "nat \<Rightarrow> int"
  time_now :: "nat \<Rightarrow> int"
  wait_pid :: "nat \<Rightarrow> int \<Rightarrow> int"
  wait_status :: "nat \<Rightarrow> wstatus"
  kill_ok :: "nat \<Rightarrow> int \<Rightarrow> bool"
  signals :: "nat \<Rightarrow> signal list"

text \<open>The globals of the program: the service table (\<^verbatim>\<open>service_count\<close> is its
  length), the run level, the flags written by the signal handlers, the watchdog
  descriptor and whether the log file is open; then the number of system calls made so
  far and their trace.\<close>

record init_state =
  services :: "service list"
  current_runlevel :: int
  shutdown_requested :: bool
  reboot_requested :: bool
  child_died :: bool
  watchdog_fd :: int
  logfile :: bool
  clock :: nat
  trace :: "event list"

subsection \<open>Signal handlers\<close>

definition sigchld_handler :: "init_state \<Rightarrow> init_state" where
  "sigchld_handler s = s\<lparr>child_died := True\<rparr>"

definition sigterm_handler :: "init_state \<Rightarrow> init_state" where
  "sigterm_handler s = s\<lparr>shutdown_requested := True, reboot_requested := False\<rparr>"

definition sigusr1_handler :: "init_state \<Rightarrow> init_state" where
  "sigusr1_handler s = s\<lparr>shutdown_requested := True, reboot_requested := True\<rparr>"

text \<open>The dispositions that \<^verbatim>\<open>main\<close> installs before anything else: three
  handlers, SIGINT and SIGHUP ignored. SIGKILL never reaches process 1.\<close>

fun deliver :: "signal \<Rightarrow> init_state \<Rightarrow> init_state" where
  "deliver SIGCHLD s = sigchld_handler s"
| "deliver SIGTERM s = sigterm_handler s"
| "deliver SIGUSR1 s = sigusr1_handler s"
| "deliver SIGINT s = s"
| "deliver SIGHUP s = s"
| "deliver SIGKILL s = s"

subsection \<open>System calls\<close>

text \<open>A system call is recorded in the trace and advances the clock; the handlers of
  the signals that arrive during the call run before it returns.\<close>

definition sys :: "env \<Rightarrow> event \<Rightarrow> init_state \<Rightarrow> init_state" where
  "sys e ev s =
     fold deliver (signals e (clock s)) (s\<lparr>clock := Suc (clock s), trace := trace s @ [ev]\<rparr>)"

definition sys_access :: "env \<Rightarrow> string \<Rightarrow> init_state \<Rightarrow> bool \<times> init_state" where
  "sys_access e path s = (access_x e (clock s) path, sys e (Ev_access path) s)"

text \<open>In the supervisor \<^verbatim>\<open>fork()\<close> returns the pid of the new child, which is
  positive, or -1.\<close>

definition sys_fork :: "env \<Rightarrow> string \<Rightarrow> init_state \<Rightarrow> int \<times> init_state" where
  "sys_fork e c s =
     (let r = (if 0 < fork_pid e (clock s) then fork_pid e (clock s) else - 1)
      in (r, sys e (Ev_fork c r) s))"

definition sys_time :: "env \<Rightarrow> init_state \<Rightarrow> int \<times> init_state" where
  "sys_time e s = (time_now e (clock s), sys e Ev_time s)"

definition sys_waitpid :: "env \<Rightarrow> int \<Rightarrow> bool \<Rightarrow> init_state \<Rightarrow> (int \<times> wstatus) \<times> init_state" where
  "sys_waitpid e p nohang s =
     ((wait_pid e (clock s) p, wait_status e (clock s)), sys e (Ev_waitpid p nohang) s)"

definition is_running :: "env \<Rightarrow> int \<Rightarrow> init_state \<Rightarrow> bool \<times> init_state" where
  "is_running e p s =
     (if p \<le> 0 then (False, s) else (kill_ok e (clock s) p, sys e (Ev_probe p) s))"

subsection \<open>Service management\<close>

text \<open>A \<^verbatim>\<open>struct service *\<close> into the table is the index of the entry; the
  callers only pass pointers to entries below \<^verbatim>\<open>service_count\<close>.\<close>

definition svc_upd :: "nat \<Rightarrow> (service \<Rightarrow> service) \<Rightarrow> init_state \<Rightarrow> init_state" where
  "svc_upd i f s = s\<lparr>services := (services s)[i := f (services s ! i)]\<rparr>"

text \<open>The first space of the command cut off, as \<^verbatim>\<open>strchr(svc->cmd, ' ')\<close>
  and the temporary \<^verbatim>\<open>*space = '\0'\<close> do.\<close>

definition first_token :: "string \<Rightarrow> string" where
  "first_token c = takeWhile (\<lambda>x. x \<noteq> CHR '' '') c"

text \<open>The check at the head of \<^verbatim>\<open>start_service\<close>: whether the function goes
  on to \<^verbatim>\<open>fork\<close>. The command itself is tried first; when it is not executable
  and contains a space, the part before the first space is tried; when it is not
  executable and contains no space, nothing more is tried and the function goes on.\<close>

definition command_check :: "env \<Rightarrow> string \<Rightarrow> init_state \<Rightarrow> bool \<times> init_state" where
  "command_check e c s =
     (let (ok, s1) = sys_access e c s
      in if ok then (True, s1)
         else if CHR '' '' \<in> set c then sys_access e (first_token c) s1
         else (True, s1))"

definition start_service :: "env \<Rightarrow> nat \<Rightarrow> init_state \<Rightarrow> int \<times> init_state" where
  "start_service e i s =
     (if state (services s ! i) = SVC_RUNNING then (0, s)
      else
        let c = cmd (services s ! i);
            (found, s2) = command_check e c s
        in
          if \<not> found then (- 1, svc_upd i (\<lambda>v. v\<lparr>state := SVC_FAILED\<rparr>) s2)
          else
            let s3 = svc_upd i (\<lambda>v. v\<lparr>state := SVC_STARTING\<rparr>) s2;
                (p, s4) = sys_fork e c s3
            in
              if p < 0 then (- 1, svc_upd i (\<lambda>v. v\<lparr>state := SVC_FAILED\<rparr>) s4)
              else
                let s5 = svc_upd i (\<lambda>v. v\<lparr>pid := p\<rparr>) s4;
                    (t, s6) = sys_time e s5;
                    s7 = svc_upd i (\<lambda>v. v\<lparr>start_time := t\<rparr>) s6
                in
                  if flags (services s7 ! i) AND SVC_FLAG_WAIT \<noteq> 0 then
                    let ((r, status), s8) = sys_waitpid e p False s7
                    in
                      if status = Exited 0
                      then (0, svc_upd i (\<lambda>v. v\<lparr>state := SVC_STOPPED\<rparr>) s8)
                      else (- 1, svc_upd i (\<lambda>v. v\<lparr>state := SVC_FAILED\<rparr>) s8)
                  else (0, svc_upd i (\<lambda>v. v\<lparr>state := SVC_RUNNING\<rparr>) s7))"

text \<open>The polling loop of \<^verbatim>\<open>stop_service\<close>, by the number of iterations
  left: it returns whether a \<^verbatim>\<open>waitpid\<close> saw the child.\<close>

fun stop_poll :: "env \<Rightarrow> nat \<Rightarrow> int \<Rightarrow> init_state \<Rightarrow> bool \<times> init_state" where
  "stop_poll e 0 p s = (False, s)"
| "stop_poll e (Suc n) p s =
     (let s1 = sys e (Ev_usleep 100000) s;
          ((r, status), s2) = sys_waitpid e p True s1
      in if 0 < r then (True, s2) else stop_poll e n p s2)"

definition stop_service :: "env \<Rightarrow> nat \<Rightarrow> init_state \<Rightarrow> int \<times> init_state" where
  "stop_service e i s =
     (if state (services s ! i) \<noteq> SVC_RUNNING then (0, s)
      else
        let s1 = svc_upd i (\<lambda>v. v\<lparr>state := SVC_STOPPING\<rparr>) s;
            p = pid (services s1 ! i);
            s2 = sys e (Ev_kill p SIGTERM) s1;
            (exited, s3) = stop_poll e 50 p s2
        in
          if exited then (0, svc_upd i (\<lambda>v. v\<lparr>state := SVC_STOPPED, pid := 0\<rparr>) s3)
          else
            let s4 = sys e (Ev_kill p SIGKILL) s3;
                ((r, status), s5) = sys_waitpid e p False s4
            in (0, svc_upd i (\<lambda>v. v\<lparr>state := SVC_STOPPED, pid := 0\<rparr>) s5))"

definition restart_service :: "env \<Rightarrow> nat \<Rightarrow> init_state \<Rightarrow> int \<times> init_state" where
  "restart_service e i s =
     (let (r, s1) = stop_service e i s;
          s2 = sys e (Ev_sleep 1) s1
      in start_service e i s2)"

definition start_all_services :: "env \<Rightarrow> init_state \<Rightarrow> init_state" where
  "start_all_services e s =
     fold (\<lambda>i s'. if runlevel (services s' ! i) \<le> current_runlevel s'
                   then snd (start_service e i s') else s')
       [0 ..< length (services s)] s"


text \<open>The body of the loop of \<^verbatim>\<open>check_services\<close> for the entry \<open>i\<close>.
  \<^verbatim>\<open>sleep\<close> takes an \<^verbatim>\<open>unsigned int\<close>: the \<^verbatim>\<open>int\<close> field
  \<^verbatim>\<open>restart_delay\<close> is converted to it, that is, taken modulo \<open>2 ^ 32\<close>, so a
  negative delay becomes a very long sleep.\<close>

definition check_service :: "env \<Rightarrow> nat \<Rightarrow> init_state \<Rightarrow> init_state" where
  "check_service e i s =
     (if state (services s ! i) = SVC_RUNNING then
        let (alive, s1) = is_running e (pid (services s ! i)) s
        in
          if \<not> alive then
            let s2 = svc_upd i (\<lambda>v. v\<lparr>state := SVC_STOPPED\<rparr>) s1
            in
              if flags (services s2 ! i) AND SVC_FLAG_RESPAWN \<noteq> 0 \<and> \<not> shutdown_requested s2 then
                if restart_count (services s2 ! i) < max_restarts (services s2 ! i) then
                  let s3 = sys e (Ev_sleep (restart_delay (services s2 ! i) mod 2 ^ 32)) s2;
                      (r, s4) = start_service e i s3
                  in svc_upd i (\<lambda>v. v\<lparr>restart_count := restart_count v + 1\<rparr>) s4
                else
                  let s3 = svc_upd i (\<lambda>v. v\<lparr>state := SVC_FAILED\<rparr>) s2
                  in
                    if flags (services s3 ! i) AND SVC_FLAG_CRITICAL \<noteq> 0
                    then s3\<lparr>reboot_requested := True, shutdown_requested := True\<rparr>
                    else s3
              else s2
          else s1
      else s)"

definition check_services :: "env \<Rightarrow> init_state \<Rightarrow> init_state" where
  "check_services e s = fold (check_service e) [0 ..< length (services s)] s"

subsection \<open>Watchdog\<close>

definition kick_watchdog :: "env \<Rightarrow> init_state \<Rightarrow> init_state" where
  "kick_watchdog e s =
     (if 0 \<le> watchdog_fd s then sys e (Ev_write (watchdog_fd s) CHR ''k'') s else s)"

definition stop_watchdog :: "env \<Rightarrow> init_state \<Rightarrow> init_state" where
  "stop_watchdog e s =
     (if 0 \<le> watchdog_fd s then
        let s1 = sys e (Ev_write (watchdog_fd s) CHR ''V'') s;
            s2 = sys e (Ev_close (watchdog_fd s1)) s1
        in s2\<lparr>watchdog_fd := - 1\<rparr>
      else s)"

subsection \<open>Reaping children\<close>

text \<open>The inner loop of \<^verbatim>\<open>reap_children\<close>: the first entry that records the
  reaped pid is cleared, and the loop is left.\<close>

fun reap_mark :: "int \<Rightarrow> service list \<Rightarrow> service list" where
  "reap_mark p [] = []"
| "reap_mark p (v # vs) =
     (if pid v = p
      then v\<lparr>pid := 0, state := (if state v = SVC_RUNNING then SVC_STOPPED else state v)\<rparr> # vs
      else v # reap_mark p vs)"

text \<open>The outer loop runs for as long as \<^verbatim>\<open>waitpid(-1, &status, WNOHANG)\<close>
  returns a pid; nothing in the program bounds it, so it is a partial function.\<close>

partial_function (option) reap_loop :: "env \<Rightarrow> init_state \<Rightarrow> init_state option" where
  "reap_loop e s =
     (case sys_waitpid e (- 1) True s of
        ((p, status), s1) \<Rightarrow>
          if 0 < p then reap_loop e (s1\<lparr>services := reap_mark p (services s1)\<rparr>)
          else Some s1)"

definition reap_children :: "env \<Rightarrow> init_state \<Rightarrow> init_state option" where
  "reap_children e s =
     (case reap_loop e s of None \<Rightarrow> None | Some s1 \<Rightarrow> Some (s1\<lparr>child_died := False\<rparr>))"

subsection \<open>Shutdown\<close>


subsection \<open>The main loop\<close>

text \<open>One pass through the body of the loop of \<^verbatim>\<open>main\<close>.\<close>

definition main_iteration :: "env \<Rightarrow> init_state \<Rightarrow> init_state option" where
  "main_iteration e s =
     (let s1 = sys e (Ev_usleep 100000) s
      in case (if child_died s1 then reap_children e s1 else Some s1) of
           None \<Rightarrow> None
         | Some s2 \<Rightarrow> Some (kick_watchdog e (check_services e s2)))"

partial_function (option) main_loop :: "env \<Rightarrow> init_state \<Rightarrow> init_state option" where
  "main_loop e s =
     (if shutdown_requested s then Some s
      else case main_iteration e s of None \<Rightarrow> None | Some s1 \<Rightarrow> main_loop e s1)"

text \<open>The first \<open>k\<close> passes of the main loop (fewer when the loop is left earlier).\<close>

fun main_loop_n :: "env \<Rightarrow> nat \<Rightarrow> init_state \<Rightarrow> init_state option" where
  "main_loop_n e 0 s = Some s"
| "main_loop_n e (Suc k) s =
     (if shutdown_requested s then Some s
      else case main_iteration e s of None \<Rightarrow> None | Some s1 \<Rightarrow> main_loop_n e k s1)"

subsection \<open>The service table\<close>

definition find_service :: "init_state \<Rightarrow> string \<Rightarrow> nat option" where
  "find_service s n =
     (case filter (\<lambda>i. name (services s ! i) = n) [0 ..< length (services s)] of
        [] \<Rightarrow> None
      | i # _ \<Rightarrow> Some i)"

text \<open>\<^verbatim>\<open>load_services\<close> reads the directory \<^verbatim>\<open>/etc/init.d\<close>. The directory
  is given as the list of names that \<^verbatim>\<open>readdir\<close> returns, in that order
  (\<open>None\<close> when \<^verbatim>\<open>opendir\<close> fails), and \<open>stat_x path\<close> says whether
  \<^verbatim>\<open>stat\<close> succeeds on the path with the owner's execute bit set.\<close>

definition is_startup_script :: "string \<Rightarrow> bool" where
  "is_startup_script d =
     (case d of
        c0 # c1 # _ \<Rightarrow> c0 = CHR ''S'' \<and> c1 \<in> set ''0123456789''
      | _ \<Rightarrow> False)"

definition script_service :: "string \<Rightarrow> string \<Rightarrow> service" where
  "script_service d path =
     \<lparr>name = take (MAX_NAME - 1) d,
      cmd = take (MAX_PATH - 1) (path @ '' start''),
      pidfile = [],
      runlevel = RUNLEVEL_FULL,
      flags = SVC_FLAG_ONESHOT,
      state = SVC_STOPPED,
      pid = 0,
      start_time = 0,
      restart_count = 0,
      max_restarts = 0,
      restart_delay = 0\<rparr>"

text \<open>The loop over the directory. \<^verbatim>\<open>load_services\<close> does not compare
  \<^verbatim>\<open>service_count\<close> with \<^verbatim>\<open>MAX_SERVICES\<close>: an entry beyond the table is
  a write out of bounds, which has no defined result (\<open>None\<close>).\<close>

fun load_entries :: "(string \<Rightarrow> bool) \<Rightarrow> string list \<Rightarrow> service list \<Rightarrow> service list option" where
  "load_entries stat_x [] svcs = Some svcs"
| "load_entries stat_x (d # ds) svcs =
     (if is_startup_script d then
        let path = take (MAX_PATH - 1) (SERVICES_DIR @ ''/'' @ d)
        in
          if stat_x path then
            if length svcs < MAX_SERVICES
            then load_entries stat_x ds (svcs @ [script_service d path])
            else None
          else load_entries stat_x ds svcs
      else load_entries stat_x ds svcs)"

definition load_services :: "string list option \<Rightarrow> (string \<Rightarrow> bool) \<Rightarrow> init_state \<Rightarrow> init_state option" where
  "load_services dir stat_x s =
     (case dir of
        None \<Rightarrow> Some s
      | Some ds \<Rightarrow>
          (case load_entries stat_x ds (services s) of
             None \<Rightarrow> None
           | Some svcs \<Rightarrow> Some (s\<lparr>services := svcs\<rparr>)))"

text \<open>\<^verbatim>\<open>parse_service_file\<close> (which \<^verbatim>\<open>main\<close> never calls) reads one service
  from a file of \<^verbatim>\<open>key=value\<close> lines. The file is given as the list of pairs
  that \<^verbatim>\<open>sscanf\<close> and \<^verbatim>\<open>trim\<close> leave in \<^verbatim>\<open>key\<close> and \<^verbatim>\<open>value\<close> for
  the lines that are not skipped (\<open>None\<close> when \<^verbatim>\<open>fopen\<close> fails);
  \<^verbatim>\<open>atoi\<close> and \<^verbatim>\<open>config.respawn_delay\<close> are parameters.\<close>

definition basename :: "string \<Rightarrow> string" where
  "basename path = rev (takeWhile (\<lambda>c. c \<noteq> CHR ''/'') (rev path))"

definition is_true :: "string \<Rightarrow> bool" where
  "is_true v = (v = ''true'' \<or> v = ''1'')"

definition apply_setting :: "(string \<Rightarrow> int) \<Rightarrow> string \<times> string \<Rightarrow> service \<Rightarrow> service" where
  "apply_setting atoi kv v =
     (case kv of (key, val) \<Rightarrow>
        if key = ''command'' \<or> key = ''cmd'' then v\<lparr>cmd := take (MAX_PATH - 1) val\<rparr>
        else if key = ''pidfile'' then v\<lparr>pidfile := take (MAX_PATH - 1) val\<rparr>
        else if key = ''runlevel'' then v\<lparr>runlevel := atoi val\<rparr>
        else if key = ''respawn'' then
          (if is_true val then v\<lparr>flags := flags v OR SVC_FLAG_RESPAWN\<rparr> else v)
        else if key = ''wait'' then
          (if is_true val then v\<lparr>flags := flags v OR SVC_FLAG_WAIT\<rparr> else v)
        else if key = ''critical'' then
          (if is_true val then v\<lparr>flags := flags v OR SVC_FLAG_CRITICAL\<rparr> else v)
        else if key = ''oneshot'' then
          (if is_true val then v\<lparr>flags := flags v OR SVC_FLAG_ONESHOT\<rparr> else v)
        else v)"

definition parse_service_file ::
  "(string \<Rightarrow> int) \<Rightarrow> int \<Rightarrow> string \<Rightarrow> (string \<times> string) list option \<Rightarrow> init_state
     \<Rightarrow> int \<times> init_state" where
  "parse_service_file atoi respawn_delay path content s =
     (if MAX_SERVICES \<le> length (services s) then (- 1, s)
      else
        case content of
          None \<Rightarrow> (- 1, s)
        | Some kvs \<Rightarrow>
            let v0 = \<lparr>name = take (MAX_NAME - 1) (basename path),
                      cmd = [], pidfile = [], runlevel = RUNLEVEL_FULL, flags = 0,
                      state = SVC_STOPPED, pid = 0, start_time = 0, restart_count = 0,
                      max_restarts = 5, restart_delay = respawn_delay\<rparr>;
                v1 = fold (apply_setting atoi) kvs v0;
                v2 = (if cmd v1 = [] then v1\<lparr>cmd := take (MAX_PATH - 1) (path @ '' start'')\<rparr>
                      else v1)
            in (0, s\<lparr>services := services s @ [v2]\<rparr>))"

subsection \<open>Scenarios\<close>

text \<open>A system in which every command is executable, every \<^verbatim>\<open>fork\<close> succeeds,
  a child that is waited for has exited with code 0 (and there is no other child), every
  probed process exists and no signal arrives.\<close>

definition env_quiet :: env where
  "env_quiet =
     \<lparr>access_x = (\<lambda>t path. True),
      fork_pid = (\<lambda>t. 100 + int t),
      time_now = (\<lambda>t. int t),
      wait_pid = (\<lambda>t p. p),
      wait_status = (\<lambda>t. Exited 0),
      kill_ok = (\<lambda>t p. True),
      signals = (\<lambda>t. [])\<rparr>"

text \<open>A respawning daemon that is running as process 100.\<close>

definition svc_daemon :: service where
  "svc_daemon =
     \<lparr>name = ''daemon'',
      cmd = ''/sbin/daemon -n'',
      pidfile = [],
      runlevel = 2,
      flags = SVC_FLAG_RESPAWN,
      state = SVC_RUNNING,
      pid = 100,
      start_time = 0,
      restart_count = 0,
      max_restarts = 5,
      restart_delay = 3\<rparr>"

text \<open>The globals before the services are loaded: run level 5, an empty service
  table, no flag set, no watchdog and no log file.\<close>

definition st_boot :: init_state where
  "st_boot =
     \<lparr>services = [],
      current_runlevel = 5,
      shutdown_requested = False,
      reboot_requested = False,
      child_died = False,
      watchdog_fd = - 1,
      logfile = False,
      clock = 0,
      trace = []\<rparr>"

text \<open>The table [A (run level 2), B (run level 5)] at run level 3.\<close>

definition svc_A :: service where
  "svc_A =
     \<lparr>name = ''A'', cmd = ''/bin/a'', pidfile = [], runlevel = 2, flags = 0,
      state = SVC_STOPPED, pid = 0, start_time = 0, restart_count = 0,
      max_restarts = 5, restart_delay = 3\<rparr>"

definition svc_B :: service where
  "svc_B =
     \<lparr>name = ''B'', cmd = ''/bin/b'', pidfile = [], runlevel = 5, flags = 0,
      state = SVC_STOPPED, pid = 0, start_time = 0, restart_count = 0,
      max_restarts = 5, restart_delay = 3\<rparr>"

definition st_AB :: init_state where
  "st_AB = st_boot\<lparr>services := [svc_A, svc_B], current_runlevel := 3\<rparr>"

text \<open>A system in which no path is executable, and a service whose command has no
  argument.\<close>

definition env_no_exec :: env where
  "env_no_exec = env_quiet\<lparr>access_x := (\<lambda>t path. False)\<rparr>"

definition svc_missing :: service where
  "svc_missing =
     \<lparr>name = ''missing'', cmd = ''/usr/sbin/missingd'', pidfile = [], runlevel = 2,
      flags = 0, state = SVC_STOPPED, pid = 0, start_time = 0, restart_count = 0,
      max_restarts = 5, restart_delay = 3\<rparr>"

text \<open>A system in which no probed process exists, a system in which a child that is
  waited for has left with code 1, and a service that is waited for.\<close>

definition env_dead :: env where
  "env_dead = env_quiet\<lparr>kill_ok := (\<lambda>t p. False)\<rparr>"

definition env_exit1 :: env where
  "env_exit1 = env_quiet\<lparr>wait_status := (\<lambda>t. Exited 1)\<rparr>"

definition svc_wait :: service where
  "svc_wait =
     \<lparr>name = ''S01mount'', cmd = ''/etc/init.d/S01mount start'', pidfile = [],
      runlevel = 2, flags = SVC_FLAG_WAIT, state = SVC_STOPPED, pid = 0, start_time = 0,
      restart_count = 0, max_restarts = 5, restart_delay = 3\<rparr>"

text \<open>A respawning service with two restarts and no restart delay, in a system where
  every probe finds its process gone.\<close>

definition svc_crasher :: service where
  "svc_crasher = svc_daemon\<lparr>max_restarts := 2, restart_delay := 0\<rparr>"

definition st_crash :: init_state where
  "st_crash = st_boot\<lparr>services := [svc_crasher]\<rparr>"

text \<open>The same system with a SIGTERM that arrives during the second system call.\<close>

definition env_term :: env where
  "env_term = env_dead\<lparr>signals := (\<lambda>t. if t = 1 then [SIGTERM] else [])\<rparr>"

text \<open>A directory with two start-up scripts whose names of 64 characters differ in the
  last character only.\<close>

definition dir_long :: "string list" where
  "dir_long =
     [''S01'' @ replicate 60 CHR ''x'' @ ''a'', ''S01'' @ replicate 60 CHR ''x'' @ ''b'']"

text \<open>The daemon has exited and SIGCHLD has been handled: the flag is set, the first
  \<^verbatim>\<open>waitpid(-1)\<close> of the pass (system call 1) returns its pid, the next one 0. The
  state after that pass is \<open>st_reaped\<close>.\<close>

definition env_reap :: env where
  "env_reap = env_quiet\<lparr>wait_pid := (\<lambda>t p. if t = 1 then 100 else 0)\<rparr>"

definition st_reap :: init_state where
  "st_reap = st_boot\<lparr>services := [svc_daemon], child_died := True\<rparr>"

definition st_reaped :: init_state where
  "st_reaped =
     st_boot\<lparr>services := [svc_daemon\<lparr>state := SVC_STOPPED, pid := 0\<rparr>],
             clock := 3,
             trace := [Ev_usleep 100000, Ev_waitpid (- 1) True, Ev_waitpid (- 1) True]\<rparr>"

text \<open>A directory with two start-up scripts and another file.\<close>

definition dir_small :: "string list" where
  "dir_small = [''S01net'', ''README'', ''S02log'']"

text \<open>The system in which no probed process exists, with a SIGTERM that arrives during
  the first system call; a service with the CRITICAL flag that has used up its
  restarts, and a table that holds it before the daemon.\<close>

definition env_term_probe :: env where
  "env_term_probe = env_dead\<lparr>signals := (\<lambda>t. if t = 0 then [SIGTERM] else [])\<rparr>"

definition svc_critical :: service where
  "svc_critical =
     svc_daemon\<lparr>name := ''critical'', cmd := ''/sbin/critical'',
       flags := SVC_FLAG_RESPAWN OR SVC_FLAG_CRITICAL, restart_count := 5\<rparr>"

definition st_critical :: init_state where
  "st_critical = st_boot\<lparr>services := [svc_critical, svc_daemon\<lparr>pid := 200\<rparr>]\<rparr>"

subsection \<open>Reading a trace\<close>





section \<open>Properties\<close>

subsection \<open>System calls and signal handlers leave the rest of the state alone\<close>

lemma deliver_frame [simp]:
  "services (deliver x s) = services s"
  "clock (deliver x s) = clock s"
  "trace (deliver x s) = trace s"
  "watchdog_fd (deliver x s) = watchdog_fd s"
  "logfile (deliver x s) = logfile s"
  "current_runlevel (deliver x s) = current_runlevel s"
  by (cases x; simp add: sigchld_handler_def sigterm_handler_def sigusr1_handler_def)+

lemma fold_deliver_frame [simp]:
  "services (fold deliver xs s) = services s"
  "clock (fold deliver xs s) = clock s"
  "trace (fold deliver xs s) = trace s"
  "watchdog_fd (fold deliver xs s) = watchdog_fd s"
  "logfile (fold deliver xs s) = logfile s"
  "current_runlevel (fold deliver xs s) = current_runlevel s"
  by (induction xs arbitrary: s; simp)+

lemma sys_frame [simp]:
  "services (sys e ev s) = services s"
  "clock (sys e ev s) = Suc (clock s)"
  "trace (sys e ev s) = trace s @ [ev]"
  "watchdog_fd (sys e ev s) = watchdog_fd s"
  "logfile (sys e ev s) = logfile s"
  "current_runlevel (sys e ev s) = current_runlevel s"
  by (simp_all add: sys_def)

lemma deliver_shutdown_mono: "shutdown_requested s \<Longrightarrow> shutdown_requested (deliver x s)"
  by (cases x; simp add: sigchld_handler_def sigterm_handler_def sigusr1_handler_def)

lemma fold_deliver_shutdown_mono:
  "shutdown_requested s \<Longrightarrow> shutdown_requested (fold deliver xs s)"
  by (induction xs arbitrary: s) (simp_all add: deliver_shutdown_mono)

lemma sys_shutdown_mono: "shutdown_requested s \<Longrightarrow> shutdown_requested (sys e ev s)"
  by (simp add: sys_def fold_deliver_shutdown_mono)

lemma svc_upd_frame [simp]:
  "services (svc_upd i f s) = (services s)[i := f (services s ! i)]"
  "clock (svc_upd i f s) = clock s"
  "trace (svc_upd i f s) = trace s"
  "watchdog_fd (svc_upd i f s) = watchdog_fd s"
  "logfile (svc_upd i f s) = logfile s"
  "current_runlevel (svc_upd i f s) = current_runlevel s"
  "shutdown_requested (svc_upd i f s) = shutdown_requested s"
  "reboot_requested (svc_upd i f s) = reboot_requested s"
  "child_died (svc_upd i f s) = child_died s"
  by (simp_all add: svc_upd_def)


subsection \<open>Stopping a service\<close>

lemma stop_poll_Suc:
  "stop_poll e (Suc n) p s =
     (if 0 < wait_pid e (Suc (clock s)) p
      then (True, sys e (Ev_waitpid p True) (sys e (Ev_usleep 100000) s))
      else stop_poll e n p (sys e (Ev_waitpid p True) (sys e (Ev_usleep 100000) s)))"
  by (simp add: sys_waitpid_def Let_def)

declare stop_poll.simps(2) [simp del]

lemma stop_poll_services [simp]: "services (snd (stop_poll e n p s)) = services s"
  by (induction n arbitrary: s) (simp_all add: stop_poll_Suc)

lemma stop_poll_timeout:
  "(\<And>j. j < n \<Longrightarrow> \<not> 0 < wait_pid e (clock s + 2 * j + 1) p) \<Longrightarrow>
   \<not> fst (stop_poll e n p s) \<and>
   trace (snd (stop_poll e n p s)) =
     trace s @ concat (replicate n [Ev_usleep 100000, Ev_waitpid p True]) \<and>
   clock (snd (stop_poll e n p s)) = clock s + 2 * n"
proof (induction n arbitrary: s)
  case 0
  then show ?case by simp
next
  case (Suc n)
  let ?s2 = "sys e (Ev_waitpid p True) (sys e (Ev_usleep 100000) s)"
  from Suc.prems[of 0] have eq: "stop_poll e (Suc n) p s = stop_poll e n p ?s2"
    by (simp add: stop_poll_Suc)
  have "\<And>j. j < n \<Longrightarrow> \<not> 0 < wait_pid e (clock ?s2 + 2 * j + 1) p"
    using Suc.prems[of "Suc _"] by simp
  from Suc.IH[OF this] show ?case
    by (simp add: eq)
qed

lemma stop_poll_exit:
  "k < n \<Longrightarrow> (\<And>j. j < k \<Longrightarrow> \<not> 0 < wait_pid e (clock s + 2 * j + 1) p) \<Longrightarrow>
   0 < wait_pid e (clock s + 2 * k + 1) p \<Longrightarrow>
   fst (stop_poll e n p s) \<and>
   trace (snd (stop_poll e n p s)) =
     trace s @ concat (replicate (Suc k) [Ev_usleep 100000, Ev_waitpid p True])"
proof (induction n arbitrary: s k)
  case 0
  then show ?case by simp
next
  case (Suc n)
  let ?s2 = "sys e (Ev_waitpid p True) (sys e (Ev_usleep 100000) s)"
  show ?case
  proof (cases k)
    case 0
    with Suc.prems(3) show ?thesis by (simp add: stop_poll_Suc)
  next
    case (Suc k')
    from Suc.prems(2)[of 0] Suc have eq: "stop_poll e (Suc n) p s = stop_poll e n p ?s2"
      by (simp add: stop_poll_Suc)
    have a: "k' < n" using Suc.prems(1) Suc by simp
    have b: "\<And>j. j < k' \<Longrightarrow> \<not> 0 < wait_pid e (clock ?s2 + 2 * j + 1) p"
      using Suc.prems(2)[of "Suc _"] Suc by simp
    have c: "0 < wait_pid e (clock ?s2 + 2 * k' + 1) p"
      using Suc.prems(3) Suc by simp
    from Suc.IH[OF a b c] show ?thesis
      by (simp add: eq Suc)
  qed
qed




lemma stop_service_unfold:
  assumes a: "state (services s ! i) = SVC_RUNNING" "i < length (services s)"
  shows "stop_service e i s =
      (if fst (stop_poll e 50 (pid (services s ! i)) (sys e (Ev_kill (pid (services s ! i)) SIGTERM) (svc_upd i (\<lambda>v. v\<lparr>state := SVC_STOPPING\<rparr>) s)))
       then (0, svc_upd i (\<lambda>v. v\<lparr>state := SVC_STOPPED, pid := 0\<rparr>) (snd (stop_poll e 50 (pid (services s ! i)) (sys e (Ev_kill (pid (services s ! i)) SIGTERM) (svc_upd i (\<lambda>v. v\<lparr>state := SVC_STOPPING\<rparr>) s)))))
       else (0, svc_upd i (\<lambda>v. v\<lparr>state := SVC_STOPPED, pid := 0\<rparr>)
                  (sys e (Ev_waitpid (pid (services s ! i)) False) (sys e (Ev_kill (pid (services s ! i)) SIGKILL) (snd (stop_poll e 50 (pid (services s ! i)) (sys e (Ev_kill (pid (services s ! i)) SIGTERM) (svc_upd i (\<lambda>v. v\<lparr>state := SVC_STOPPING\<rparr>) s))))))))"
    using a by (simp add: stop_service_def Let_def sys_waitpid_def split_beta)

lemma stop_service_trace:
  assumes a: "state (services s ! i) = SVC_RUNNING" "i < length (services s)"
  shows "(\<exists>k<50.
          (\<forall>j<k. \<not> 0 < wait_pid e (clock s + 2 * j + 2) (pid (services s ! i))) \<and>
          0 < wait_pid e (clock s + 2 * k + 2) (pid (services s ! i)) \<and>
          trace (snd (stop_service e i s)) =
            trace s @ Ev_kill (pid (services s ! i)) SIGTERM #
              concat (replicate (Suc k)
                [Ev_usleep 100000, Ev_waitpid (pid (services s ! i)) True]))
       \<or>
       ((\<forall>j<50. \<not> 0 < wait_pid e (clock s + 2 * j + 2) (pid (services s ! i))) \<and>
          trace (snd (stop_service e i s)) =
            trace s @ Ev_kill (pid (services s ! i)) SIGTERM #
              concat (replicate 50
                [Ev_usleep 100000, Ev_waitpid (pid (services s ! i)) True]) @
              [Ev_kill (pid (services s ! i)) SIGKILL,
               Ev_waitpid (pid (services s ! i)) False])"
proof -
  define p where "p = pid (services s ! i)"
  define s2 where "s2 = sys e (Ev_kill p SIGTERM) (svc_upd i (\<lambda>v. v\<lparr>state := SVC_STOPPING\<rparr>) s)"
  define P where "P = (\<lambda>j. 0 < wait_pid e (clock s + 2 * j + 2) p)"
  define polls where "polls = (\<lambda>k. concat (replicate k [Ev_usleep 100000, Ev_waitpid p True]))"
  have t2: "trace s2 = trace s @ [Ev_kill p SIGTERM]"
    by (simp add: s2_def)
  have ce: "\<And>j. (0 < wait_pid e (clock s2 + 2 * j + 1) p) = P j"
    by (simp add: s2_def P_def)
  note unf = stop_service_unfold[OF a, of e, folded p_def, folded s2_def]
  have "(\<exists>k<50. (\<forall>j<k. \<not> P j) \<and> P k \<and>
           trace (snd (stop_service e i s)) = trace s @ Ev_kill p SIGTERM # polls (Suc k))
        \<or> ((\<forall>j<50. \<not> P j) \<and>
           trace (snd (stop_service e i s)) =
             trace s @ Ev_kill p SIGTERM # polls 50 @ [Ev_kill p SIGKILL, Ev_waitpid p False])"
  proof (cases "\<exists>j<50. P j")
    case True
    then obtain j0 where "j0 < 50 \<and> P j0" by blast
    then obtain k where k: "k < 50 \<and> P k" and least: "\<forall>j<k. \<not> (j < 50 \<and> P j)"
      using exists_least_iff[of "\<lambda>j. j < 50 \<and> P j"] by blast
    have least': "\<forall>j<k. \<not> P j"
    proof (intro allI impI)
      fix j assume "j < k"
      with k least show "\<not> P j" by (meson order.strict_trans)
    qed
    have "fst (stop_poll e 50 p s2) \<and>
          trace (snd (stop_poll e 50 p s2)) = trace s2 @ polls (Suc k)"
      unfolding polls_def
    proof (rule stop_poll_exit)
      show "k < 50" using k by simp
      show "\<And>j. j < k \<Longrightarrow> \<not> 0 < wait_pid e (clock s2 + 2 * j + 1) p"
        unfolding ce using least' by blast
      show "0 < wait_pid e (clock s2 + 2 * k + 1) p"
        unfolding ce using k by blast
    qed
    then have "trace (snd (stop_service e i s)) = trace s @ Ev_kill p SIGTERM # polls (Suc k)"
      by (simp only: unf if_True snd_conv svc_upd_frame t2 append.simps append_assoc)
    with k least' show ?thesis by blast
  next
    case False
    have "\<not> fst (stop_poll e 50 p s2) \<and>
          trace (snd (stop_poll e 50 p s2)) = trace s2 @ polls 50 \<and>
          clock (snd (stop_poll e 50 p s2)) = clock s2 + 2 * 50"
      unfolding polls_def
    proof (rule stop_poll_timeout)
      show "\<And>j. j < 50 \<Longrightarrow> \<not> 0 < wait_pid e (clock s2 + 2 * j + 1) p"
        unfolding ce using False by blast
    qed
    then have "trace (snd (stop_service e i s)) =
             trace s @ Ev_kill p SIGTERM # polls 50 @ [Ev_kill p SIGKILL, Ev_waitpid p False]"
      by (simp only: unf if_False snd_conv svc_upd_frame sys_frame t2 append.simps append_assoc)
    with False show ?thesis by blast
  qed
  then show ?thesis
    unfolding P_def polls_def p_def .
qed


text \<open>
  Claim C6. \<^verbatim>\<open>stop_service\<close> on a service that is not RUNNING changes nothing
  and returns 0. On a RUNNING service (process \<open>p\<close>) it sends SIGTERM to \<open>p\<close> and
  then polls: each poll sleeps 100000 microseconds and calls \<^verbatim>\<open>waitpid\<close> with
  WNOHANG, and there are at most 50 polls. Either one of the 50 polls sees the child
  (the first such poll is the last call made), or none does and the function sends
  SIGKILL and waits for the child without WNOHANG. On both paths the service ends in
  state STOPPED with pid 0 and the function returns 0.
\<close>

theorem stop_service_spec:
  "(state (services s ! i) \<noteq> SVC_RUNNING \<longrightarrow> stop_service e i s = (0, s)) \<and>
   (state (services s ! i) = SVC_RUNNING \<and> i < length (services s) \<longrightarrow>
      fst (stop_service e i s) = 0 \<and>
      state (services (snd (stop_service e i s)) ! i) = SVC_STOPPED \<and>
      pid (services (snd (stop_service e i s)) ! i) = 0 \<and>
      ((\<exists>k<50.
          (\<forall>j<k. \<not> 0 < wait_pid e (clock s + 2 * j + 2) (pid (services s ! i))) \<and>
          0 < wait_pid e (clock s + 2 * k + 2) (pid (services s ! i)) \<and>
          trace (snd (stop_service e i s)) =
            trace s @ Ev_kill (pid (services s ! i)) SIGTERM #
              concat (replicate (Suc k)
                [Ev_usleep 100000, Ev_waitpid (pid (services s ! i)) True]))
       \<or>
       ((\<forall>j<50. \<not> 0 < wait_pid e (clock s + 2 * j + 2) (pid (services s ! i))) \<and>
          trace (snd (stop_service e i s)) =
            trace s @ Ev_kill (pid (services s ! i)) SIGTERM #
              concat (replicate 50
                [Ev_usleep 100000, Ev_waitpid (pid (services s ! i)) True]) @
              [Ev_kill (pid (services s ! i)) SIGKILL,
               Ev_waitpid (pid (services s ! i)) False])))"
proof (intro conjI impI)
  assume "state (services s ! i) \<noteq> SVC_RUNNING"
  then show "stop_service e i s = (0, s)"
    by (simp add: stop_service_def)
next
  assume a: "state (services s ! i) = SVC_RUNNING \<and> i < length (services s)"
  then show "fst (stop_service e i s) = 0"
    by (simp add: stop_service_unfold)
next
  assume a: "state (services s ! i) = SVC_RUNNING \<and> i < length (services s)"
  then show "state (services (snd (stop_service e i s)) ! i) = SVC_STOPPED"
    by (simp add: stop_service_unfold)
next
  assume a: "state (services s ! i) = SVC_RUNNING \<and> i < length (services s)"
  then show "pid (services (snd (stop_service e i s)) ! i) = 0"
    by (simp add: stop_service_unfold)
next
  assume a: "state (services s ! i) = SVC_RUNNING \<and> i < length (services s)"
  then show "(\<exists>k<50.
          (\<forall>j<k. \<not> 0 < wait_pid e (clock s + 2 * j + 2) (pid (services s ! i))) \<and>
          0 < wait_pid e (clock s + 2 * k + 2) (pid (services s ! i)) \<and>
          trace (snd (stop_service e i s)) =
            trace s @ Ev_kill (pid (services s ! i)) SIGTERM #
              concat (replicate (Suc k)
                [Ev_usleep 100000, Ev_waitpid (pid (services s ! i)) True]))
       \<or>
       ((\<forall>j<50. \<not> 0 < wait_pid e (clock s + 2 * j + 2) (pid (services s ! i))) \<and>
          trace (snd (stop_service e i s)) =
            trace s @ Ev_kill (pid (services s ! i)) SIGTERM #
              concat (replicate 50
                [Ev_usleep 100000, Ev_waitpid (pid (services s ! i)) True]) @
              [Ev_kill (pid (services s ! i)) SIGKILL,
               Ev_waitpid (pid (services s ! i)) False])"
    using stop_service_trace[of s i e] by blast
qed

theorem stop_service_spec_witness:
  "state (services (st_boot\<lparr>services := [svc_B]\<rparr>) ! 0) \<noteq> SVC_RUNNING \<and>
   stop_service env_quiet 0 (st_boot\<lparr>services := [svc_B]\<rparr>) =
     (0, st_boot\<lparr>services := [svc_B]\<rparr>) \<and>
   state (services (st_boot\<lparr>services := [svc_daemon]\<rparr>) ! 0) = SVC_RUNNING \<and>
   0 < length (services (st_boot\<lparr>services := [svc_daemon]\<rparr>)) \<and>
   fst (stop_service env_quiet 0 (st_boot\<lparr>services := [svc_daemon]\<rparr>)) = 0 \<and>
   state (services (snd (stop_service env_quiet 0 (st_boot\<lparr>services := [svc_daemon]\<rparr>))) ! 0)
     = SVC_STOPPED \<and>
   pid (services (snd (stop_service env_quiet 0 (st_boot\<lparr>services := [svc_daemon]\<rparr>))) ! 0) = 0"
proof -
  let ?s = "st_boot\<lparr>services := [svc_daemon]\<rparr>"
  let ?b = "st_boot\<lparr>services := [svc_B]\<rparr>"
  have h: "state (services ?s ! 0) = SVC_RUNNING \<and> 0 < length (services ?s)"
    by (simp add: st_boot_def svc_daemon_def)
  have n: "state (services ?b ! 0) \<noteq> SVC_RUNNING"
    by (simp add: st_boot_def svc_B_def)
  from stop_service_spec[of ?b 0 env_quiet] n
  have 1: "stop_service env_quiet 0 ?b = (0, ?b)"
    by blast
  from stop_service_spec[of ?s 0 env_quiet] h
  have 2: "fst (stop_service env_quiet 0 ?s) = 0 \<and>
      state (services (snd (stop_service env_quiet 0 ?s)) ! 0) = SVC_STOPPED \<and>
      pid (services (snd (stop_service env_quiet 0 ?s)) ! 0) = 0"
    by blast
  from n 1 h 2 show ?thesis by blast
qed

subsection \<open>Starting services\<close>

lemma command_check_frame [simp]:
  "services (snd (command_check e c s)) = services s"
  "watchdog_fd (snd (command_check e c s)) = watchdog_fd s"
  "logfile (snd (command_check e c s)) = logfile s"
  "current_runlevel (snd (command_check e c s)) = current_runlevel s"
  by (simp_all add: command_check_def sys_access_def Let_def)

lemma command_check_shutdown:
  "shutdown_requested s \<Longrightarrow> shutdown_requested (snd (command_check e c s))"
  by (simp add: command_check_def sys_access_def Let_def sys_shutdown_mono)

lemma start_service_length [simp]:
  "length (services (snd (start_service e i s))) = length (services s)"
  by (simp add: start_service_def Let_def split_beta sys_fork_def sys_time_def sys_waitpid_def)

lemma start_service_other:
  "j \<noteq> i \<Longrightarrow> services (snd (start_service e i s)) ! j = services s ! j"
  by (simp add: start_service_def Let_def split_beta sys_fork_def sys_time_def sys_waitpid_def)

lemma start_service_globals [simp]:
  "watchdog_fd (snd (start_service e i s)) = watchdog_fd s"
  "logfile (snd (start_service e i s)) = logfile s"
  "current_runlevel (snd (start_service e i s)) = current_runlevel s"
  by (simp_all add: start_service_def Let_def split_beta sys_fork_def sys_time_def sys_waitpid_def)

lemma start_service_shutdown:
  "shutdown_requested s \<Longrightarrow> shutdown_requested (snd (start_service e i s))"
  by (simp add: start_service_def Let_def split_beta sys_fork_def sys_time_def sys_waitpid_def
      command_check_shutdown sys_shutdown_mono)


lemma start_service_unchanged_fields:
  "name (services (snd (start_service e i s)) ! j) = name (services s ! j)"
  "cmd (services (snd (start_service e i s)) ! j) = cmd (services s ! j)"
  "runlevel (services (snd (start_service e i s)) ! j) = runlevel (services s ! j)"
  "flags (services (snd (start_service e i s)) ! j) = flags (services s ! j)"
  "restart_count (services (snd (start_service e i s)) ! j) = restart_count (services s ! j)"
  "max_restarts (services (snd (start_service e i s)) ! j) = max_restarts (services s ! j)"
  "restart_delay (services (snd (start_service e i s)) ! j) = restart_delay (services s ! j)"
proof -
  consider "j \<noteq> i" | "j = i" "i < length (services s)" | "j = i" "length (services s) \<le> i"
    by linarith
  then have "name (services (snd (start_service e i s)) ! j) = name (services s ! j) \<and>
    cmd (services (snd (start_service e i s)) ! j) = cmd (services s ! j) \<and>
    runlevel (services (snd (start_service e i s)) ! j) = runlevel (services s ! j) \<and>
    flags (services (snd (start_service e i s)) ! j) = flags (services s ! j) \<and>
    restart_count (services (snd (start_service e i s)) ! j) = restart_count (services s ! j) \<and>
    max_restarts (services (snd (start_service e i s)) ! j) = max_restarts (services s ! j) \<and>
    restart_delay (services (snd (start_service e i s)) ! j) = restart_delay (services s ! j)"
  proof cases
    case 1
    then show ?thesis by (simp add: start_service_other)
  next
    case 2
    then show ?thesis
      by (simp add: start_service_def Let_def split_beta sys_fork_def sys_time_def sys_waitpid_def)
  next
    case 3
    then show ?thesis
      by (simp add: start_service_def Let_def split_beta sys_fork_def sys_time_def sys_waitpid_def
          list_update_beyond)
  qed
  then show
  "name (services (snd (start_service e i s)) ! j) = name (services s ! j)"
  "cmd (services (snd (start_service e i s)) ! j) = cmd (services s ! j)"
  "runlevel (services (snd (start_service e i s)) ! j) = runlevel (services s ! j)"
  "flags (services (snd (start_service e i s)) ! j) = flags (services s ! j)"
  "restart_count (services (snd (start_service e i s)) ! j) = restart_count (services s ! j)"
  "max_restarts (services (snd (start_service e i s)) ! j) = max_restarts (services s ! j)"
  "restart_delay (services (snd (start_service e i s)) ! j) = restart_delay (services s ! j)"
    by simp_all
qed


lemma fold_start_filter:
  "fold (\<lambda>i s'. if runlevel (services s' ! i) \<le> current_runlevel s'
                   then snd (start_service e i s') else s') js s =
   fold (\<lambda>i s'. snd (start_service e i s'))
     (filter (\<lambda>i. runlevel (services s ! i) \<le> current_runlevel s) js) s"
proof (induction js arbitrary: s)
  case Nil
  then show ?case by simp
next
  case (Cons j js)
  show ?case
  proof (cases "runlevel (services s ! j) \<le> current_runlevel s")
    case True
    let ?s1 = "snd (start_service e j s)"
    have "(\<lambda>i. runlevel (services ?s1 ! i) \<le> current_runlevel ?s1) =
          (\<lambda>i. runlevel (services s ! i) \<le> current_runlevel s)"
      by (simp add: start_service_unchanged_fields)
    with True Cons.IH[of ?s1] show ?thesis by simp
  next
    case False
    with Cons.IH[of s] show ?thesis by simp
  qed
qed

lemma fold_start_other:
  "i \<notin> set js \<Longrightarrow>
   services (fold (\<lambda>j s'. snd (start_service e j s')) js s) ! i = services s ! i"
  by (induction js arbitrary: s) (simp_all add: start_service_other)

text \<open>
  Claim C8. The start-up pass calls \<^verbatim>\<open>start_service\<close> for exactly the services
  whose run level is at most \<^verbatim>\<open>current_runlevel\<close>, in the order of the table, and
  leaves every entry with a higher run level as it was: a service that was STOPPED is
  still STOPPED.
\<close>

theorem start_all_services_spec:
  "start_all_services e s =
     fold (\<lambda>i s'. snd (start_service e i s'))
       (filter (\<lambda>i. runlevel (services s ! i) \<le> current_runlevel s)
          [0 ..< length (services s)]) s \<and>
   (\<forall>i < length (services s).
      current_runlevel s < runlevel (services s ! i) \<longrightarrow>
        services (start_all_services e s) ! i = services s ! i)"
proof -
  have eq: "start_all_services e s =
     fold (\<lambda>i s'. snd (start_service e i s'))
       (filter (\<lambda>i. runlevel (services s ! i) \<le> current_runlevel s)
          [0 ..< length (services s)]) s"
    unfolding start_all_services_def by (rule fold_start_filter)
  show ?thesis
    by (simp add: eq fold_start_other)
qed


theorem start_all_services_spec_witness:
  "1 < length (services st_AB) \<and>
   current_runlevel st_AB < runlevel (services st_AB ! 1) \<and>
   services (start_all_services env_quiet st_AB) ! 1 = svc_B \<and>
   state (services (start_all_services env_quiet st_AB) ! 1) = SVC_STOPPED \<and>
   state (services (start_all_services env_quiet st_AB) ! 0) = SVC_RUNNING \<and>
   trace (start_all_services env_quiet st_AB) =
     [Ev_access ''/bin/a'', Ev_fork ''/bin/a'' 101, Ev_time]"
proof -
  have h: "1 < length (services st_AB) \<and> current_runlevel st_AB < runlevel (services st_AB ! 1)"
    by (simp add: st_AB_def st_boot_def svc_B_def)
  have f: "filter (\<lambda>i. runlevel (services st_AB ! i) \<le> current_runlevel st_AB)
             [0 ..< length (services st_AB)] = [0]"
    by (simp add: st_AB_def st_boot_def svc_A_def svc_B_def upt_rec)
  note spec = start_all_services_spec[of env_quiet st_AB]
  from spec have "start_all_services env_quiet st_AB =
      fold (\<lambda>i s'. snd (start_service env_quiet i s'))
       (filter (\<lambda>i. runlevel (services st_AB ! i) \<le> current_runlevel st_AB)
          [0 ..< length (services st_AB)]) st_AB"
    by (rule conjunct1)
  then have eq: "start_all_services env_quiet st_AB = snd (start_service env_quiet 0 st_AB)"
    unfolding f by simp
  from spec h have un: "services (start_all_services env_quiet st_AB) ! 1 = services st_AB ! 1"
    by blast
  have b: "services st_AB ! 1 = svc_B" "state svc_B = SVC_STOPPED"
    by (simp_all add: st_AB_def st_boot_def svc_B_def)
  have run: "state (services (snd (start_service env_quiet 0 st_AB)) ! 0) = SVC_RUNNING \<and>
    trace (snd (start_service env_quiet 0 st_AB)) =
      [Ev_access ''/bin/a'', Ev_fork ''/bin/a'' 101, Ev_time]"
    by (simp add: start_service_def command_check_def sys_access_def sys_fork_def sys_time_def
        sys_def Let_def svc_upd_def env_quiet_def st_AB_def st_boot_def svc_A_def svc_B_def
        SVC_FLAG_WAIT_def)
  from h un b run show ?thesis
    by (simp add: eq)
qed

subsection \<open>Starting a service whose command does not exist\<close>

text \<open>When the command contains a space and neither the command nor its first token is
  executable, \<^verbatim>\<open>start_service\<close> marks the service FAILED and returns -1 after the
  two \<^verbatim>\<open>access\<close> calls: there is no \<^verbatim>\<open>fork\<close>, and the recorded pid is the
  one the entry had.\<close>

lemma start_service_command_not_found:
  assumes "i < length (services s)" "state (services s ! i) \<noteq> SVC_RUNNING"
    and "CHR '' '' \<in> set (cmd (services s ! i))"
    and "\<not> access_x e (clock s) (cmd (services s ! i))"
    and "\<not> access_x e (Suc (clock s)) (first_token (cmd (services s ! i)))"
  shows "start_service e i s =
    (- 1, svc_upd i (\<lambda>v. v\<lparr>state := SVC_FAILED\<rparr>)
            (sys e (Ev_access (first_token (cmd (services s ! i))))
               (sys e (Ev_access (cmd (services s ! i))) s)))"
  using assms by (simp add: start_service_def command_check_def sys_access_def Let_def)

text \<open>
  Claim C4. The command \<^verbatim>\<open>/usr/sbin/missingd\<close> is not executable and contains no
  space. \<^verbatim>\<open>start_service\<close> then skips the failure branch, forks, records the
  child's pid, marks the service RUNNING and returns 0.
\<close>

theorem start_service_missing_command:
  "(\<forall>t path. \<not> access_x env_no_exec t path) \<and>
   fst (start_service env_no_exec 0 (st_boot\<lparr>services := [svc_missing]\<rparr>)) = 0 \<and>
   state (services (snd (start_service env_no_exec 0 (st_boot\<lparr>services := [svc_missing]\<rparr>))) ! 0)
     = SVC_RUNNING \<and>
   pid (services (snd (start_service env_no_exec 0 (st_boot\<lparr>services := [svc_missing]\<rparr>))) ! 0)
     = 101 \<and>
   trace (snd (start_service env_no_exec 0 (st_boot\<lparr>services := [svc_missing]\<rparr>))) =
     [Ev_access ''/usr/sbin/missingd'', Ev_fork ''/usr/sbin/missingd'' 101, Ev_time]"
  by (simp add: start_service_def command_check_def sys_access_def sys_fork_def sys_time_def
      sys_def Let_def svc_upd_def env_no_exec_def env_quiet_def st_boot_def svc_missing_def
      SVC_FLAG_WAIT_def)

subsection \<open>The recorded pid and the state\<close>

text \<open>
  Claim C2. Three operations leave a service that is not RUNNING or STOPPING with a
  recorded pid. \<^verbatim>\<open>check_services\<close> on a RUNNING service whose process is gone
  marks it STOPPED and keeps pid 100; \<^verbatim>\<open>start_service\<close> on a service that is
  waited for ends in STOPPED (exit code 0) or FAILED (exit code 1) with the child's
  pid 101 still recorded.
\<close>

theorem pid_kept_outside_running:
  "state (services (check_services env_dead
      (st_boot\<lparr>services := [svc_daemon\<lparr>flags := 0\<rparr>]\<rparr>)) ! 0) = SVC_STOPPED \<and>
   pid (services (check_services env_dead
      (st_boot\<lparr>services := [svc_daemon\<lparr>flags := 0\<rparr>]\<rparr>)) ! 0) = 100 \<and>
   state (services (snd (start_service env_quiet 0 (st_boot\<lparr>services := [svc_wait]\<rparr>))) ! 0)
     = SVC_STOPPED \<and>
   pid (services (snd (start_service env_quiet 0 (st_boot\<lparr>services := [svc_wait]\<rparr>))) ! 0)
     = 101 \<and>
   state (services (snd (start_service env_exit1 0 (st_boot\<lparr>services := [svc_wait]\<rparr>))) ! 0)
     = SVC_FAILED \<and>
   pid (services (snd (start_service env_exit1 0 (st_boot\<lparr>services := [svc_wait]\<rparr>))) ! 0)
     = 101"
  by (simp add: check_services_def check_service_def is_running_def
      start_service_def command_check_def sys_access_def sys_fork_def sys_time_def
      sys_waitpid_def sys_def Let_def svc_upd_def env_dead_def env_exit1_def env_quiet_def
      st_boot_def svc_daemon_def svc_wait_def SVC_FLAG_WAIT_def SVC_FLAG_RESPAWN_def)

subsection \<open>The health check and the respawn policy\<close>

lemma nth_list_update_if:
  "j < length xs \<Longrightarrow> xs[i := x] ! j = (if i = j then x else xs ! j)"
  by (cases "i = j") simp_all

lemma is_running_frame [simp]:
  "services (snd (is_running e p s)) = services s"
  "watchdog_fd (snd (is_running e p s)) = watchdog_fd s"
  "logfile (snd (is_running e p s)) = logfile s"
  "current_runlevel (snd (is_running e p s)) = current_runlevel s"
  by (simp_all add: is_running_def)

lemma is_running_shutdown:
  "shutdown_requested s \<Longrightarrow> shutdown_requested (snd (is_running e p s))"
  by (simp add: is_running_def sys_shutdown_mono)

lemma is_running_trace:
  "\<exists>ps. trace (snd (is_running e p s)) = trace s @ map Ev_probe ps"
proof (cases "p \<le> 0")
  case True
  then have "trace (snd (is_running e p s)) = trace s @ map Ev_probe []"
    by (simp add: is_running_def)
  then show ?thesis by blast
next
  case False
  then have "trace (snd (is_running e p s)) = trace s @ map Ev_probe [p]"
    by (simp add: is_running_def)
  then show ?thesis by blast
qed

lemma check_service_not_running:
  "state (services s ! i) \<noteq> SVC_RUNNING \<Longrightarrow> check_service e i s = s"
  by (simp add: check_service_def)

lemma check_service_shutdown_cases:
  assumes "shutdown_requested s"
  shows "check_service e i s = s \<or>
         check_service e i s = snd (is_running e (pid (services s ! i)) s) \<or>
         (state (services s ! i) = SVC_RUNNING \<and>
          check_service e i s =
            svc_upd i (\<lambda>v. v\<lparr>state := SVC_STOPPED\<rparr>) (snd (is_running e (pid (services s ! i)) s)))"
  using is_running_shutdown[OF assms, of e "pid (services s ! i)"]
  by (simp add: check_service_def Let_def split_beta)

lemma check_service_shutdown_step:
  assumes sh: "shutdown_requested s"
  shows "shutdown_requested (check_service e i s) \<and>
         (\<exists>ps. trace (check_service e i s) = trace s @ map Ev_probe ps) \<and>
         length (services (check_service e i s)) = length (services s) \<and>
         (\<forall>j<length (services s).
            restart_count (services (check_service e i s) ! j) = restart_count (services s ! j) \<and>
            (state (services (check_service e i s) ! j) = state (services s ! j) \<or>
             state (services s ! j) = SVC_RUNNING \<and>
             state (services (check_service e i s) ! j) = SVC_STOPPED))"
proof -
  let ?s1 = "snd (is_running e (pid (services s ! i)) s)"
  have sh1: "shutdown_requested ?s1" using sh by (rule is_running_shutdown)
  from is_running_trace[of e "pid (services s ! i)" s]
  obtain ps where ps: "trace ?s1 = trace s @ map Ev_probe ps" by blast
  have empty: "trace s = trace s @ map Ev_probe []" by simp
  from check_service_shutdown_cases[OF sh, of e i]
  consider "check_service e i s = s" | "check_service e i s = ?s1"
    | "state (services s ! i) = SVC_RUNNING"
      "check_service e i s = svc_upd i (\<lambda>v. v\<lparr>state := SVC_STOPPED\<rparr>) ?s1"
    by blast
  then show ?thesis
  proof cases
    case 1
    with sh empty show ?thesis by (simp only:) blast
  next
    case 2
    with sh1 ps show ?thesis by (simp only: is_running_frame) blast
  next
    case 3
    have "\<forall>j<length (services s).
            restart_count (services (check_service e i s) ! j) = restart_count (services s ! j) \<and>
            (state (services (check_service e i s) ! j) = state (services s ! j) \<or>
             state (services s ! j) = SVC_RUNNING \<and>
             state (services (check_service e i s) ! j) = SVC_STOPPED)"
      using 3 by (simp add: nth_list_update_if)
    moreover have "shutdown_requested (check_service e i s)"
      using 3 sh1 by simp
    moreover have "\<exists>ps. trace (check_service e i s) = trace s @ map Ev_probe ps"
      using 3 ps by (simp only: svc_upd_frame) blast
    moreover have "length (services (check_service e i s)) = length (services s)"
      using 3 by simp
    ultimately show ?thesis by blast
  qed
qed

lemma check_fold_shutdown:
  assumes sh: "shutdown_requested s"
  shows "shutdown_requested (fold (check_service e) js s) \<and>
         (\<exists>ps. trace (fold (check_service e) js s) = trace s @ map Ev_probe ps) \<and>
         length (services (fold (check_service e) js s)) = length (services s) \<and>
         (\<forall>j<length (services s).
            restart_count (services (fold (check_service e) js s) ! j) = restart_count (services s ! j) \<and>
            (state (services (fold (check_service e) js s) ! j) = state (services s ! j) \<or>
             state (services s ! j) = SVC_RUNNING \<and>
             state (services (fold (check_service e) js s) ! j) = SVC_STOPPED))"
  using sh
proof (induction js arbitrary: s)
  case Nil
  have "trace s = trace s @ map Ev_probe []" by simp
  with Nil show ?case by (simp only: fold.simps id_apply) blast
next
  case (Cons i js)
  let ?s1 = "check_service e i s"
  note st = check_service_shutdown_step[OF Cons.prems, of e i]
  from st have sh1: "shutdown_requested ?s1" by blast
  note ih = Cons.IH[OF sh1]
  from st obtain ps1 where ps1: "trace ?s1 = trace s @ map Ev_probe ps1" by blast
  from ih obtain ps2 where ps2: "trace (fold (check_service e) js ?s1) = trace ?s1 @ map Ev_probe ps2"
    by blast
  have tr: "trace (fold (check_service e) js ?s1) = trace s @ map Ev_probe (ps1 @ ps2)"
    by (simp add: ps1 ps2)
  have len: "length (services ?s1) = length (services s)" using st by blast
  have fields: "\<forall>j<length (services s).
            restart_count (services (fold (check_service e) js ?s1) ! j) = restart_count (services s ! j) \<and>
            (state (services (fold (check_service e) js ?s1) ! j) = state (services s ! j) \<or>
             state (services s ! j) = SVC_RUNNING \<and>
             state (services (fold (check_service e) js ?s1) ! j) = SVC_STOPPED)"
  proof (intro allI impI)
    fix j assume j: "j < length (services s)"
    from st j have a: "restart_count (services ?s1 ! j) = restart_count (services s ! j)"
      "state (services ?s1 ! j) = state (services s ! j) \<or>
       state (services s ! j) = SVC_RUNNING \<and> state (services ?s1 ! j) = SVC_STOPPED"
      by blast+
    from ih j len have b: "restart_count (services (fold (check_service e) js ?s1) ! j) = restart_count (services ?s1 ! j)"
      "state (services (fold (check_service e) js ?s1) ! j) = state (services ?s1 ! j) \<or>
       state (services ?s1 ! j) = SVC_RUNNING \<and> state (services (fold (check_service e) js ?s1) ! j) = SVC_STOPPED"
      by simp_all
    from a b show "restart_count (services (fold (check_service e) js ?s1) ! j) = restart_count (services s ! j) \<and>
            (state (services (fold (check_service e) js ?s1) ! j) = state (services s ! j) \<or>
             state (services s ! j) = SVC_RUNNING \<and>
             state (services (fold (check_service e) js ?s1) ! j) = SVC_STOPPED)"
      by auto
  qed
  from ih have "shutdown_requested (fold (check_service e) js ?s1)"
    and "length (services (fold (check_service e) js ?s1)) = length (services ?s1)" by blast+
  with tr len fields show ?case
    by (simp only: fold.simps comp_apply) blast
qed

lemma check_service_length [simp]:
  "length (services (check_service e i s)) = length (services s)"
  by (simp add: check_service_def Let_def split_beta)

lemma check_fold_length:
  "length (services (fold (check_service e) js s)) = length (services s)"
  by (induction js arbitrary: s) simp_all

lemma is_running_trace_eq:
  "trace (snd (is_running e p s)) = trace s @ (if p \<le> 0 then [] else [Ev_probe p])"
  by (simp add: is_running_def)

lemma check_service_flag_set:
  assumes "state (services s ! i) = SVC_RUNNING"
    and "shutdown_requested (snd (is_running e (pid (services s ! i)) s))"
  shows "check_service e i s =
    (if fst (is_running e (pid (services s ! i)) s)
     then snd (is_running e (pid (services s ! i)) s)
     else svc_upd i (\<lambda>v. v\<lparr>state := SVC_STOPPED\<rparr>) (snd (is_running e (pid (services s ! i)) s)))"
  using assms by (simp add: check_service_def Let_def split_beta)

lemma kick_watchdog_shutdown:
  "shutdown_requested s \<Longrightarrow> shutdown_requested (kick_watchdog e s)"
  by (simp add: kick_watchdog_def sys_shutdown_mono)

text \<open>
  Claim C9, as amended. \<^verbatim>\<open>check_services\<close> reads \<^verbatim>\<open>shutdown_requested\<close> once
  for each RUNNING service, after the liveness probe of that service. If the flag is set
  at that read, the service is not restarted, whatever restarts it has left: the probe
  is the only system call made for it, and a service found dead is just marked STOPPED.
  The flag is never cleared, so once it is set at some point of a pass (before the
  pass, by a signal during it, or by the failure of a CRITICAL service earlier in the
  same pass), the rest of the pass makes no system call but probes, starts nothing and
  leaves every restart count as it is, and the main loop is left after the pass; with
  the flag set beforehand the loop makes no pass at all. A service that is not RUNNING
  is not touched.
\<close>

theorem no_respawn_after_shutdown:
  "(state (services s ! i) \<noteq> SVC_RUNNING \<longrightarrow> check_service e i s = s) \<and>
   (state (services s ! i) = SVC_RUNNING \<and>
    shutdown_requested (snd (is_running e (pid (services s ! i)) s)) \<longrightarrow>
      check_service e i s =
        (if fst (is_running e (pid (services s ! i)) s)
         then snd (is_running e (pid (services s ! i)) s)
         else svc_upd i (\<lambda>v. v\<lparr>state := SVC_STOPPED\<rparr>)
                (snd (is_running e (pid (services s ! i)) s))) \<and>
      trace (check_service e i s) =
        trace s @ (if pid (services s ! i) \<le> 0 then [] else [Ev_probe (pid (services s ! i))]) \<and>
      shutdown_requested (check_service e i s)) \<and>
   ([0 ..< length (services s)] = js1 @ js2 \<and>
    shutdown_requested (fold (check_service e) js1 s) \<longrightarrow>
      (\<exists>ps. trace (check_services e s) =
             trace (fold (check_service e) js1 s) @ map Ev_probe ps) \<and>
      shutdown_requested (check_services e s) \<and>
      (\<forall>j<length (services s).
         restart_count (services (check_services e s) ! j) =
           restart_count (services (fold (check_service e) js1 s) ! j) \<and>
         (state (services (check_services e s) ! j) =
            state (services (fold (check_service e) js1 s) ! j) \<or>
          state (services (fold (check_service e) js1 s) ! j) = SVC_RUNNING \<and>
          state (services (check_services e s) ! j) = SVC_STOPPED)) \<and>
      main_loop e (kick_watchdog e (check_services e s)) =
        Some (kick_watchdog e (check_services e s))) \<and>
   (shutdown_requested s \<longrightarrow> main_loop e s = Some s)"
proof -
  let ?s1 = "snd (is_running e (pid (services s ! i)) s)"
  have 1: "state (services s ! i) \<noteq> SVC_RUNNING \<longrightarrow> check_service e i s = s"
    by (simp add: check_service_not_running)
  have 2: "state (services s ! i) = SVC_RUNNING \<and> shutdown_requested ?s1 \<longrightarrow>
      check_service e i s =
        (if fst (is_running e (pid (services s ! i)) s) then ?s1
         else svc_upd i (\<lambda>v. v\<lparr>state := SVC_STOPPED\<rparr>) ?s1) \<and>
      trace (check_service e i s) =
        trace s @ (if pid (services s ! i) \<le> 0 then [] else [Ev_probe (pid (services s ! i))]) \<and>
      shutdown_requested (check_service e i s)"
  proof (intro impI, elim conjE)
    assume a: "state (services s ! i) = SVC_RUNNING" "shutdown_requested ?s1"
    note eq = check_service_flag_set[OF a]
    have tr: "trace (check_service e i s) = trace ?s1"
      unfolding eq by simp
    have sh: "shutdown_requested (check_service e i s)"
      unfolding eq using a(2) by simp
    from eq tr sh show "check_service e i s =
        (if fst (is_running e (pid (services s ! i)) s) then ?s1
         else svc_upd i (\<lambda>v. v\<lparr>state := SVC_STOPPED\<rparr>) ?s1) \<and>
      trace (check_service e i s) =
        trace s @ (if pid (services s ! i) \<le> 0 then [] else [Ev_probe (pid (services s ! i))]) \<and>
      shutdown_requested (check_service e i s)"
      by (simp only: is_running_trace_eq)
  qed
  have 3: "[0 ..< length (services s)] = js1 @ js2 \<and>
    shutdown_requested (fold (check_service e) js1 s) \<longrightarrow>
      (\<exists>ps. trace (check_services e s) =
             trace (fold (check_service e) js1 s) @ map Ev_probe ps) \<and>
      shutdown_requested (check_services e s) \<and>
      (\<forall>j<length (services s).
         restart_count (services (check_services e s) ! j) =
           restart_count (services (fold (check_service e) js1 s) ! j) \<and>
         (state (services (check_services e s) ! j) =
            state (services (fold (check_service e) js1 s) ! j) \<or>
          state (services (fold (check_service e) js1 s) ! j) = SVC_RUNNING \<and>
          state (services (check_services e s) ! j) = SVC_STOPPED)) \<and>
      main_loop e (kick_watchdog e (check_services e s)) =
        Some (kick_watchdog e (check_services e s))"
  proof (intro impI, elim conjE)
    let ?m = "fold (check_service e) js1 s"
    assume sp: "[0 ..< length (services s)] = js1 @ js2" and sh: "shutdown_requested ?m"
    have cs: "check_services e s = fold (check_service e) js2 ?m"
      by (simp add: check_services_def sp)
    have len: "length (services ?m) = length (services s)"
      by (rule check_fold_length)
    note f = check_fold_shutdown[OF sh, of e js2, folded cs, unfolded len]
    from f have "shutdown_requested (check_services e s)" by blast
    then have "shutdown_requested (kick_watchdog e (check_services e s))"
      by (rule kick_watchdog_shutdown)
    then have "main_loop e (kick_watchdog e (check_services e s)) =
        Some (kick_watchdog e (check_services e s))"
      by (subst main_loop.simps) simp
    with f show "(\<exists>ps. trace (check_services e s) = trace ?m @ map Ev_probe ps) \<and>
      shutdown_requested (check_services e s) \<and>
      (\<forall>j<length (services s).
         restart_count (services (check_services e s) ! j) = restart_count (services ?m ! j) \<and>
         (state (services (check_services e s) ! j) = state (services ?m ! j) \<or>
          state (services ?m ! j) = SVC_RUNNING \<and>
          state (services (check_services e s) ! j) = SVC_STOPPED)) \<and>
      main_loop e (kick_watchdog e (check_services e s)) =
        Some (kick_watchdog e (check_services e s))"
      by blast
  qed
  have 4: "shutdown_requested s \<longrightarrow> main_loop e s = Some s"
    by (subst main_loop.simps) simp
  from 1 2 3 4 show ?thesis by blast
qed


theorem no_respawn_after_shutdown_witness:
  "state (services (st_boot\<lparr>services := [svc_B]\<rparr>) ! 0) \<noteq> SVC_RUNNING \<and>
   check_service env_dead 0 (st_boot\<lparr>services := [svc_B]\<rparr>) = st_boot\<lparr>services := [svc_B]\<rparr> \<and>
   \<not> shutdown_requested (st_boot\<lparr>services := [svc_daemon]\<rparr>) \<and>
   state (services (st_boot\<lparr>services := [svc_daemon]\<rparr>) ! 0) = SVC_RUNNING \<and>
   shutdown_requested (snd (is_running env_term_probe
     (pid (services (st_boot\<lparr>services := [svc_daemon]\<rparr>) ! 0))
     (st_boot\<lparr>services := [svc_daemon]\<rparr>))) \<and>
   trace (check_service env_term_probe 0 (st_boot\<lparr>services := [svc_daemon]\<rparr>)) =
     [Ev_probe 100] \<and>
   shutdown_requested (check_service env_term_probe 0 (st_boot\<lparr>services := [svc_daemon]\<rparr>)) \<and>
   state (services (check_service env_term_probe 0 (st_boot\<lparr>services := [svc_daemon]\<rparr>)) ! 0)
     = SVC_STOPPED \<and>
   \<not> shutdown_requested st_critical \<and>
   [0 ..< length (services st_critical)] = [0] @ [1] \<and>
   shutdown_requested (fold (check_service env_dead) [0] st_critical) \<and>
   trace (fold (check_service env_dead) [0] st_critical) = [Ev_probe 100] \<and>
   trace (check_services env_dead st_critical) = [Ev_probe 100, Ev_probe 200] \<and>
   shutdown_requested (check_services env_dead st_critical) \<and>
   restart_count (services (check_services env_dead st_critical) ! 1) = 0 \<and>
   state (services (check_services env_dead st_critical) ! 1) = SVC_STOPPED \<and>
   main_loop env_dead (kick_watchdog env_dead (check_services env_dead st_critical)) =
     Some (kick_watchdog env_dead (check_services env_dead st_critical)) \<and>
   main_loop env_dead (st_boot\<lparr>shutdown_requested := True\<rparr>) =
     Some (st_boot\<lparr>shutdown_requested := True\<rparr>)"
proof -
  let ?b = "st_boot\<lparr>services := [svc_B]\<rparr>"
  let ?d = "st_boot\<lparr>services := [svc_daemon]\<rparr>"
  let ?t = "st_boot\<lparr>shutdown_requested := True\<rparr>"
  have hb: "state (services ?b ! 0) \<noteq> SVC_RUNNING"
    by (simp add: st_boot_def svc_B_def)
  have hd: "\<not> shutdown_requested ?d" "state (services ?d ! 0) = SVC_RUNNING"
    "shutdown_requested (snd (is_running env_term_probe (pid (services ?d ! 0)) ?d))"
    "pid (services ?d ! 0) = 100" "trace ?d = []"
    "\<not> fst (is_running env_term_probe (pid (services ?d ! 0)) ?d)"
    by (simp_all add: is_running_def sys_def env_term_probe_def env_dead_def env_quiet_def
        st_boot_def svc_daemon_def sigterm_handler_def)
  have hc: "\<not> shutdown_requested st_critical"
    "[0 ..< length (services st_critical)] = [0] @ [1]"
    by (simp_all add: st_critical_def st_boot_def upt_rec)
  have m: "fold (check_service env_dead) [0] st_critical =
      st_boot\<lparr>services := [svc_critical\<lparr>state := SVC_FAILED\<rparr>, svc_daemon\<lparr>pid := 200\<rparr>],
        reboot_requested := True, shutdown_requested := True,
        clock := 1, trace := [Ev_probe 100]\<rparr>"
    by (simp add: check_service_def is_running_def sys_def Let_def svc_upd_def env_dead_def
        env_quiet_def st_critical_def st_boot_def svc_critical_def svc_daemon_def
        SVC_FLAG_RESPAWN_def SVC_FLAG_CRITICAL_def)
  have hm: "shutdown_requested (fold (check_service env_dead) [0] st_critical)"
    "trace (fold (check_service env_dead) [0] st_critical) = [Ev_probe 100]"
    "restart_count (services (fold (check_service env_dead) [0] st_critical) ! 1) = 0"
    "1 < length (services st_critical)"
    unfolding m by (simp_all add: st_boot_def svc_daemon_def st_critical_def)
  have full: "trace (check_services env_dead st_critical) = [Ev_probe 100, Ev_probe 200]"
    "state (services (check_services env_dead st_critical) ! 1) = SVC_STOPPED"
    using m
    by (simp_all add: check_services_def hc(2) check_service_def is_running_def sys_def Let_def
        svc_upd_def env_dead_def env_quiet_def st_boot_def svc_daemon_def)
  note t1 = no_respawn_after_shutdown[where s = ?b and i = 0 and e = env_dead
      and ?js1.0 = "[]" and ?js2.0 = "[]"]
  note t2 = no_respawn_after_shutdown[where s = ?d and i = 0 and e = env_term_probe
      and ?js1.0 = "[]" and ?js2.0 = "[]"]
  note t3 = no_respawn_after_shutdown[where s = st_critical and i = 0 and e = env_dead
      and ?js1.0 = "[0]" and ?js2.0 = "[1]"]
  note t4 = no_respawn_after_shutdown[where s = ?t and i = 0 and e = env_dead
      and ?js1.0 = "[]" and ?js2.0 = "[]"]
  from t1 hb have 1: "check_service env_dead 0 ?b = ?b" by blast
  from t2 hd(2,3) have "check_service env_term_probe 0 ?d =
        (if fst (is_running env_term_probe (pid (services ?d ! 0)) ?d)
         then snd (is_running env_term_probe (pid (services ?d ! 0)) ?d)
         else svc_upd 0 (\<lambda>v. v\<lparr>state := SVC_STOPPED\<rparr>)
                (snd (is_running env_term_probe (pid (services ?d ! 0)) ?d)))"
    and 2: "trace (check_service env_term_probe 0 ?d) =
        trace ?d @ (if pid (services ?d ! 0) \<le> 0 then [] else [Ev_probe (pid (services ?d ! 0))])"
      "shutdown_requested (check_service env_term_probe 0 ?d)"
    by blast+
  then have r2: "state (services (check_service env_term_probe 0 ?d) ! 0) = SVC_STOPPED"
    "trace (check_service env_term_probe 0 ?d) = [Ev_probe 100]"
    using hd(4,5,6) by simp_all
  from t3 hc(2) hm(1)
  have 3: "shutdown_requested (check_services env_dead st_critical)"
    "\<forall>j<length (services st_critical).
         restart_count (services (check_services env_dead st_critical) ! j) =
           restart_count (services (fold (check_service env_dead) [0] st_critical) ! j) \<and>
         (state (services (check_services env_dead st_critical) ! j) =
            state (services (fold (check_service env_dead) [0] st_critical) ! j) \<or>
          state (services (fold (check_service env_dead) [0] st_critical) ! j) = SVC_RUNNING \<and>
          state (services (check_services env_dead st_critical) ! j) = SVC_STOPPED)"
    "main_loop env_dead (kick_watchdog env_dead (check_services env_dead st_critical)) =
     Some (kick_watchdog env_dead (check_services env_dead st_critical))"
    by blast+
  from 3(2) hm(3,4) have r3: "restart_count (services (check_services env_dead st_critical) ! 1) = 0"
    by simp
  have "shutdown_requested ?t" by simp
  with t4 have 4: "main_loop env_dead ?t = Some ?t" by blast
  from hb 1 hd(1,2,3) r2 2(2) hc hm(1,2) full 3(1) r3 3(3) 4 show ?thesis
    by (intro conjI)
qed

text \<open>
  Claim C9, as stated, fails when the flag is set between the check of the policy and
  the start. The daemon is found dead while \<^verbatim>\<open>shutdown_requested\<close> is clear; SIGTERM
  arrives during \<^verbatim>\<open>sleep(restart_delay)\<close>, the second system call, and sets the flag;
  the fourth system call is the \<^verbatim>\<open>fork\<close> that restarts the daemon.
\<close>

theorem respawn_after_shutdown_counterexample:
  "\<not> shutdown_requested (st_boot\<lparr>services := [svc_daemon]\<rparr>) \<and>
   signals env_term 1 = [SIGTERM] \<and>
   shutdown_requested
     (sys env_term (Ev_sleep 3) (sys env_term (Ev_probe 100) (st_boot\<lparr>services := [svc_daemon]\<rparr>))) \<and>
   trace (check_services env_term (st_boot\<lparr>services := [svc_daemon]\<rparr>)) =
     [Ev_probe 100, Ev_sleep 3, Ev_access ''/sbin/daemon -n'',
      Ev_fork ''/sbin/daemon -n'' 103, Ev_time] \<and>
   state (services (check_services env_term (st_boot\<lparr>services := [svc_daemon]\<rparr>)) ! 0)
     = SVC_RUNNING \<and>
   pid (services (check_services env_term (st_boot\<lparr>services := [svc_daemon]\<rparr>)) ! 0) = 103 \<and>
   shutdown_requested (check_services env_term (st_boot\<lparr>services := [svc_daemon]\<rparr>))"
  by (simp add: check_services_def check_service_def is_running_def
      start_service_def command_check_def sys_access_def sys_fork_def sys_time_def
      sys_def Let_def svc_upd_def env_term_def env_dead_def env_quiet_def
      st_boot_def svc_daemon_def SVC_FLAG_WAIT_def SVC_FLAG_RESPAWN_def sigterm_handler_def)

subsection \<open>Counting restarts\<close>

lemma command_check_trace:
  "\<exists>T. trace (snd (command_check e c s)) = trace s @ Ev_access c # T"
  by (simp add: command_check_def sys_access_def Let_def)

lemma start_service_trace_access:
  assumes "state (services s ! i) \<noteq> SVC_RUNNING"
  shows "\<exists>T. trace (snd (start_service e i s)) = trace s @ Ev_access (cmd (services s ! i)) # T"
proof -
  from command_check_trace[of e "cmd (services s ! i)" s]
  obtain T0 where T0: "trace (snd (command_check e (cmd (services s ! i)) s)) =
      trace s @ Ev_access (cmd (services s ! i)) # T0" by blast
  show ?thesis
    using assms
    by (simp add: start_service_def Let_def split_beta sys_fork_def sys_time_def sys_waitpid_def T0)
qed

text \<open>The three passes of the scenario.\<close>

lemma crash_pass_1:
  "check_services env_dead st_crash =
    st_boot\<lparr>services := [svc_crasher\<lparr>state := SVC_RUNNING, pid := 103, start_time := 4,
                 restart_count := 1\<rparr>],
            clock := 5,
            trace := [Ev_probe 100, Ev_sleep 0, Ev_access ''/sbin/daemon -n'',
                      Ev_fork ''/sbin/daemon -n'' 103, Ev_time]\<rparr>"
    by (simp add: check_services_def check_service_def is_running_def
      start_service_def command_check_def sys_access_def sys_fork_def sys_time_def
      sys_def Let_def svc_upd_def env_dead_def env_quiet_def st_crash_def svc_crasher_def
      st_boot_def svc_daemon_def SVC_FLAG_WAIT_def SVC_FLAG_RESPAWN_def)

lemma crash_pass_2:
  "check_services env_dead (check_services env_dead st_crash) =
    st_boot\<lparr>services := [svc_crasher\<lparr>state := SVC_RUNNING, pid := 108, start_time := 9,
                 restart_count := 2\<rparr>],
            clock := 10,
            trace := [Ev_probe 100, Ev_sleep 0, Ev_access ''/sbin/daemon -n'',
                      Ev_fork ''/sbin/daemon -n'' 103, Ev_time,
                      Ev_probe 103, Ev_sleep 0, Ev_access ''/sbin/daemon -n'',
                      Ev_fork ''/sbin/daemon -n'' 108, Ev_time]\<rparr>"
    unfolding crash_pass_1
    by (simp add: check_services_def check_service_def is_running_def
      start_service_def command_check_def sys_access_def sys_fork_def sys_time_def
      sys_def Let_def svc_upd_def env_dead_def env_quiet_def st_crash_def svc_crasher_def
      st_boot_def svc_daemon_def SVC_FLAG_WAIT_def SVC_FLAG_RESPAWN_def)

lemma crash_pass_3:
  "check_services env_dead (check_services env_dead (check_services env_dead st_crash)) =
    st_boot\<lparr>services := [svc_crasher\<lparr>state := SVC_FAILED, pid := 108, start_time := 9,
                 restart_count := 2\<rparr>],
            clock := 11,
            trace := [Ev_probe 100, Ev_sleep 0, Ev_access ''/sbin/daemon -n'',
                      Ev_fork ''/sbin/daemon -n'' 103, Ev_time,
                      Ev_probe 103, Ev_sleep 0, Ev_access ''/sbin/daemon -n'',
                      Ev_fork ''/sbin/daemon -n'' 108, Ev_time,
                      Ev_probe 108]\<rparr>"
    unfolding crash_pass_2
    by (simp add: check_services_def check_service_def is_running_def
      sys_def Let_def svc_upd_def env_dead_def env_quiet_def st_crash_def svc_crasher_def
      st_boot_def svc_daemon_def SVC_FLAG_CRITICAL_def SVC_FLAG_RESPAWN_def)

text \<open>With a restart delay of -1 the supervisor calls \<^verbatim>\<open>sleep(4294967295)\<close>.\<close>

lemma respawn_negative_delay:
  "trace (check_services env_dead (st_boot\<lparr>services := [svc_daemon\<lparr>restart_delay := - 1\<rparr>]\<rparr>)) =
     [Ev_probe 100, Ev_sleep 4294967295, Ev_access ''/sbin/daemon -n'',
      Ev_fork ''/sbin/daemon -n'' 103, Ev_time]"
  by (simp add: check_services_def check_service_def is_running_def
      start_service_def command_check_def sys_access_def sys_fork_def sys_time_def
      sys_def Let_def svc_upd_def env_dead_def env_quiet_def
      st_boot_def svc_daemon_def SVC_FLAG_WAIT_def SVC_FLAG_RESPAWN_def)

text \<open>
  Claim C3, as amended. Take a RUNNING service with the RESPAWN flag whose process is
  found gone by \<^verbatim>\<open>check_services\<close> while \<^verbatim>\<open>shutdown_requested\<close> is clear. If
  its restart count is below \<^verbatim>\<open>max_restarts\<close>, the supervisor calls
  \<^verbatim>\<open>sleep\<close> with \<^verbatim>\<open>restart_delay\<close> converted to \<^verbatim>\<open>unsigned int\<close> (the
  delay itself when it is not negative, the delay plus \<open>2 ^ 32\<close> when it is), calls
  \<^verbatim>\<open>start_service\<close> (which begins with the \<^verbatim>\<open>access\<close> check of the command)
  and increments the count by one. Otherwise the service is marked FAILED, nothing is
  started and the count stays as it is: that crash is not counted. In the scenario (two
  restarts allowed, no delay, every probe finds the process gone) the count is 1 and 2
  after the first two passes, and the third pass ends with the service FAILED and the
  count still 2; the trace of the three passes holds two forks after the three probes,
  and none after the third.
\<close>

theorem respawn_policy_spec:
  "(i < length (services s) \<and> state (services s ! i) = SVC_RUNNING \<and>
    \<not> fst (is_running e (pid (services s ! i)) s) \<and>
    flags (services s ! i) AND SVC_FLAG_RESPAWN \<noteq> 0 \<and>
    \<not> shutdown_requested (snd (is_running e (pid (services s ! i)) s)) \<longrightarrow>
    (restart_count (services s ! i) < max_restarts (services s ! i) \<longrightarrow>
       check_service e i s =
         svc_upd i (\<lambda>v. v\<lparr>restart_count := restart_count v + 1\<rparr>)
           (snd (start_service e i
              (sys e (Ev_sleep (restart_delay (services s ! i) mod 2 ^ 32))
                 (svc_upd i (\<lambda>v. v\<lparr>state := SVC_STOPPED\<rparr>)
                    (snd (is_running e (pid (services s ! i)) s)))))) \<and>
       restart_count (services (check_service e i s) ! i) = restart_count (services s ! i) + 1 \<and>
       (\<exists>T. trace (check_service e i s) =
              trace (snd (is_running e (pid (services s ! i)) s)) @
              Ev_sleep (restart_delay (services s ! i) mod 2 ^ 32) #
              Ev_access (cmd (services s ! i)) # T)) \<and>
    (\<not> restart_count (services s ! i) < max_restarts (services s ! i) \<longrightarrow>
       state (services (check_service e i s) ! i) = SVC_FAILED \<and>
       restart_count (services (check_service e i s) ! i) = restart_count (services s ! i) \<and>
       trace (check_service e i s) = trace (snd (is_running e (pid (services s ! i)) s)))) \<and>
   restart_count (services (check_services env_dead st_crash) ! 0) = 1 \<and>
   restart_count (services (check_services env_dead
     (check_services env_dead st_crash)) ! 0) = 2 \<and>
   state (services (check_services env_dead
     (check_services env_dead st_crash)) ! 0) = SVC_RUNNING \<and>
   restart_count (services (check_services env_dead (check_services env_dead
     (check_services env_dead st_crash))) ! 0) = 2 \<and>
   state (services (check_services env_dead (check_services env_dead
     (check_services env_dead st_crash))) ! 0) = SVC_FAILED \<and>
   trace (check_services env_dead (check_services env_dead
     (check_services env_dead st_crash))) =
     [Ev_probe 100, Ev_sleep 0, Ev_access ''/sbin/daemon -n'',
        Ev_fork ''/sbin/daemon -n'' 103, Ev_time,
      Ev_probe 103, Ev_sleep 0, Ev_access ''/sbin/daemon -n'',
        Ev_fork ''/sbin/daemon -n'' 108, Ev_time,
      Ev_probe 108]"
proof (intro conjI impI; (elim conjE)?)
  assume a: "i < length (services s)" "state (services s ! i) = SVC_RUNNING"
    "\<not> fst (is_running e (pid (services s ! i)) s)"
    "flags (services s ! i) AND SVC_FLAG_RESPAWN \<noteq> 0"
    "\<not> shutdown_requested (snd (is_running e (pid (services s ! i)) s))"
    and lt: "restart_count (services s ! i) < max_restarts (services s ! i)"
  let ?s1 = "snd (is_running e (pid (services s ! i)) s)"
  let ?s3 = "sys e (Ev_sleep (restart_delay (services s ! i) mod 2 ^ 32))
                 (svc_upd i (\<lambda>v. v\<lparr>state := SVC_STOPPED\<rparr>) ?s1)"
  show eq: "check_service e i s =
         svc_upd i (\<lambda>v. v\<lparr>restart_count := restart_count v + 1\<rparr>)
           (snd (start_service e i ?s3))"
    using a lt by (simp add: check_service_def Let_def split_beta)
  have "restart_count (services (snd (start_service e i ?s3)) ! i) = restart_count (services ?s3 ! i)"
    by (rule start_service_unchanged_fields)
  then show "restart_count (services (check_service e i s) ! i) = restart_count (services s ! i) + 1"
    using a by (simp add: eq)
  have "state (services ?s3 ! i) \<noteq> SVC_RUNNING" "cmd (services ?s3 ! i) = cmd (services s ! i)"
    using a by simp_all
  with start_service_trace_access[of ?s3 i e]
  show "\<exists>T. trace (check_service e i s) =
              trace ?s1 @ Ev_sleep (restart_delay (services s ! i) mod 2 ^ 32) #
              Ev_access (cmd (services s ! i)) # T"
    by (simp add: eq)
next
  assume a: "i < length (services s)" "state (services s ! i) = SVC_RUNNING"
    "\<not> fst (is_running e (pid (services s ! i)) s)"
    "flags (services s ! i) AND SVC_FLAG_RESPAWN \<noteq> 0"
    "\<not> shutdown_requested (snd (is_running e (pid (services s ! i)) s))"
    and ge: "\<not> restart_count (services s ! i) < max_restarts (services s ! i)"
  show "state (services (check_service e i s) ! i) = SVC_FAILED"
    using a ge by (simp add: check_service_def Let_def split_beta)
  show "restart_count (services (check_service e i s) ! i) = restart_count (services s ! i)"
    using a ge by (simp add: check_service_def Let_def split_beta)
  show "trace (check_service e i s) = trace (snd (is_running e (pid (services s ! i)) s))"
    using a ge by (simp add: check_service_def Let_def split_beta)
next
  show "restart_count (services (check_services env_dead st_crash) ! 0) = 1"
    unfolding crash_pass_1 by simp
  show "restart_count (services (check_services env_dead (check_services env_dead st_crash)) ! 0) = 2"
    unfolding crash_pass_2 by simp
  show "state (services (check_services env_dead (check_services env_dead st_crash)) ! 0) = SVC_RUNNING"
    unfolding crash_pass_2 by simp
  show "restart_count (services (check_services env_dead (check_services env_dead
     (check_services env_dead st_crash))) ! 0) = 2"
    unfolding crash_pass_3 by simp
  show "state (services (check_services env_dead (check_services env_dead
     (check_services env_dead st_crash))) ! 0) = SVC_FAILED"
    unfolding crash_pass_3 by simp
  show "trace (check_services env_dead (check_services env_dead
     (check_services env_dead st_crash))) =
     [Ev_probe 100, Ev_sleep 0, Ev_access ''/sbin/daemon -n'',
        Ev_fork ''/sbin/daemon -n'' 103, Ev_time,
      Ev_probe 103, Ev_sleep 0, Ev_access ''/sbin/daemon -n'',
        Ev_fork ''/sbin/daemon -n'' 108, Ev_time,
      Ev_probe 108]"
    unfolding crash_pass_3 by (simp add: st_boot_def)
qed

theorem respawn_policy_spec_witness:
  "0 < length (services st_crash) \<and> state (services st_crash ! 0) = SVC_RUNNING \<and>
   \<not> fst (is_running env_dead (pid (services st_crash ! 0)) st_crash) \<and>
   flags (services st_crash ! 0) AND SVC_FLAG_RESPAWN \<noteq> 0 \<and>
   \<not> shutdown_requested (snd (is_running env_dead (pid (services st_crash ! 0)) st_crash)) \<and>
   restart_count (services st_crash ! 0) < max_restarts (services st_crash ! 0) \<and>
   restart_count (services (check_service env_dead 0 st_crash) ! 0) =
     restart_count (services st_crash ! 0) + 1 \<and>
   \<not> restart_count (services (check_services env_dead (check_services env_dead st_crash)) ! 0)
      < max_restarts (services (check_services env_dead (check_services env_dead st_crash)) ! 0) \<and>
   state (services (check_service env_dead 0
      (check_services env_dead (check_services env_dead st_crash))) ! 0) = SVC_FAILED \<and>
   restart_count (services (check_service env_dead 0
      (check_services env_dead (check_services env_dead st_crash))) ! 0) =
     restart_count (services (check_services env_dead (check_services env_dead st_crash)) ! 0)"
proof -
  let ?s2 = "check_services env_dead (check_services env_dead st_crash)"
  have h: "0 < length (services st_crash) \<and> state (services st_crash ! 0) = SVC_RUNNING \<and>
   \<not> fst (is_running env_dead (pid (services st_crash ! 0)) st_crash) \<and>
   flags (services st_crash ! 0) AND SVC_FLAG_RESPAWN \<noteq> 0 \<and>
   \<not> shutdown_requested (snd (is_running env_dead (pid (services st_crash ! 0)) st_crash))"
    by (simp add: is_running_def sys_def env_dead_def env_quiet_def st_crash_def svc_crasher_def
        st_boot_def svc_daemon_def SVC_FLAG_RESPAWN_def)
  have lt: "restart_count (services st_crash ! 0) < max_restarts (services st_crash ! 0)"
    by (simp add: st_crash_def svc_crasher_def st_boot_def svc_daemon_def)
  have h2: "0 < length (services ?s2) \<and> state (services ?s2 ! 0) = SVC_RUNNING \<and>
   \<not> fst (is_running env_dead (pid (services ?s2 ! 0)) ?s2) \<and>
   flags (services ?s2 ! 0) AND SVC_FLAG_RESPAWN \<noteq> 0 \<and>
   \<not> shutdown_requested (snd (is_running env_dead (pid (services ?s2 ! 0)) ?s2))"
    unfolding crash_pass_2
    by (simp add: is_running_def sys_def env_dead_def env_quiet_def svc_crasher_def
        st_boot_def svc_daemon_def SVC_FLAG_RESPAWN_def)
  have ge: "\<not> restart_count (services ?s2 ! 0) < max_restarts (services ?s2 ! 0)"
    unfolding crash_pass_2 by (simp add: svc_crasher_def)
  from respawn_policy_spec[of 0 st_crash env_dead] h lt
  have 1: "restart_count (services (check_service env_dead 0 st_crash) ! 0) =
     restart_count (services st_crash ! 0) + 1"
    by blast
  from respawn_policy_spec[of 0 ?s2 env_dead] h2 ge
  have 2: "state (services (check_service env_dead 0 ?s2) ! 0) = SVC_FAILED \<and>
    restart_count (services (check_service env_dead 0 ?s2) ! 0) = restart_count (services ?s2 ! 0)"
    by blast
  from h lt 1 ge 2 show ?thesis by blast
qed

text \<open>
  Claim C3, as stated, fails at the third crash of the scenario: the service is RUNNING,
  the probe finds its process gone, and the pass leaves the restart count at 2.
\<close>

theorem restart_count_counterexample:
  "state (services (check_services env_dead (check_services env_dead st_crash)) ! 0)
     = SVC_RUNNING \<and>
   \<not> fst (is_running env_dead
      (pid (services (check_services env_dead (check_services env_dead st_crash)) ! 0))
      (check_services env_dead (check_services env_dead st_crash))) \<and>
   restart_count (services (check_services env_dead (check_services env_dead st_crash)) ! 0)
     = 2 \<and>
   restart_count (services (check_services env_dead
      (check_services env_dead (check_services env_dead st_crash))) ! 0) = 2"
  unfolding crash_pass_3 unfolding crash_pass_2
  by (simp add: is_running_def env_dead_def env_quiet_def)

subsection \<open>Loading the service table\<close>

lemma load_entries_names:
  "load_entries st ds svcs = Some r \<Longrightarrow>
   map name r = map name svcs @
     map (take (MAX_NAME - 1))
       (filter (\<lambda>d. is_startup_script d \<and> st (take (MAX_PATH - 1) (SERVICES_DIR @ ''/'' @ d))) ds)"
proof (induction ds arbitrary: svcs)
  case Nil
  then show ?case by simp
next
  case (Cons d ds)
  show ?case
  proof (cases "is_startup_script d \<and> st (take (MAX_PATH - 1) (SERVICES_DIR @ ''/'' @ d))")
    case True
    with Cons.prems have "length svcs < MAX_SERVICES"
      and "load_entries st ds (svcs @ [script_service d (take (MAX_PATH - 1) (SERVICES_DIR @ ''/'' @ d))]) = Some r"
      by (simp_all add: Let_def split: if_splits)
    from Cons.IH[OF this(2)] True show ?thesis
      by (simp add: script_service_def)
  next
    case False
    with Cons.prems have "load_entries st ds svcs = Some r"
      by (auto simp: Let_def split: if_splits)
    from Cons.IH[OF this] False show ?thesis by auto
  qed
qed

lemma load_entries_succeeds:
  "length svcs +
     length (filter (\<lambda>d. is_startup_script d \<and> st (take (MAX_PATH - 1) (SERVICES_DIR @ ''/'' @ d))) ds)
     \<le> MAX_SERVICES \<Longrightarrow>
   \<exists>r. load_entries st ds svcs = Some r"
proof (induction ds arbitrary: svcs)
  case Nil
  then show ?case by simp
next
  case (Cons d ds)
  show ?case
  proof (cases "is_startup_script d \<and> st (take (MAX_PATH - 1) (SERVICES_DIR @ ''/'' @ d))")
    case True
    with Cons.prems have lt: "length svcs < MAX_SERVICES" by simp
    have "length (svcs @ [script_service d (take (MAX_PATH - 1) (SERVICES_DIR @ ''/'' @ d))]) +
      length (filter (\<lambda>d. is_startup_script d \<and> st (take (MAX_PATH - 1) (SERVICES_DIR @ ''/'' @ d))) ds)
      \<le> MAX_SERVICES"
      using Cons.prems True by simp
    from Cons.IH[OF this] True lt show ?thesis by (simp add: Let_def)
  next
    case False
    with Cons.prems have "length svcs +
      length (filter (\<lambda>d. is_startup_script d \<and> st (take (MAX_PATH - 1) (SERVICES_DIR @ ''/'' @ d))) ds)
      \<le> MAX_SERVICES" by auto
    from Cons.IH[OF this] False show ?thesis by (auto simp: Let_def)
  qed
qed

lemma find_service_first:
  "find_service s n = Some i \<Longrightarrow>
   i < length (services s) \<and> name (services s ! i) = n \<and>
   (\<forall>j<i. name (services s ! j) \<noteq> n)"
proof -
  assume a: "find_service s n = Some i"
  let ?P = "\<lambda>i. name (services s ! i) = n"
  from a obtain js where js: "filter ?P [0 ..< length (services s)] = i # js"
    by (auto simp: find_service_def split: list.splits)
  then have "i \<in> set (filter ?P [0 ..< length (services s)])" by simp
  then have 1: "i < length (services s)" "?P i" by auto
  have "\<forall>j<i. \<not> ?P j"
  proof (intro allI impI notI)
    fix j assume j: "j < i" and p: "?P j"
    have "sorted (filter ?P [0 ..< length (services s)])" by (simp add: sorted_wrt_filter)
    then have "\<forall>x \<in> set js. i \<le> x" unfolding js by simp
    moreover have "j \<in> set (filter ?P [0 ..< length (services s)])"
      using j p 1 by simp
    ultimately show False using j unfolding js by auto
  qed
  with 1 show ?thesis by blast
qed

lemma find_service_none:
  "find_service s n = None \<Longrightarrow> \<forall>j<length (services s). name (services s ! j) \<noteq> n"
proof (intro allI impI notI)
  fix j assume a: "find_service s n = None" and j: "j < length (services s)"
    and p: "name (services s ! j) = n"
  from a have "filter (\<lambda>i. name (services s ! i) = n) [0 ..< length (services s)] = []"
    by (simp add: find_service_def split: list.splits)
  moreover have "j \<in> set (filter (\<lambda>i. name (services s ! i) = n) [0 ..< length (services s)])"
    using j p by simp
  ultimately show False by simp
qed

text \<open>\<^verbatim>\<open>parse_service_file\<close> appends its service under the base name of the path,
  without looking at the names in the table.\<close>

lemma apply_setting_name [simp]: "name (apply_setting atoi kv v) = name v"
  by (simp add: apply_setting_def split: prod.splits)

lemma fold_apply_setting_name [simp]: "name (fold (apply_setting atoi) kvs v) = name v"
  by (induction kvs arbitrary: v) simp_all

lemma parse_service_file_names:
  "(fst (parse_service_file atoi rd path content s) = 0 \<longrightarrow>
      map name (services (snd (parse_service_file atoi rd path content s))) =
        map name (services s) @ [take 63 (basename path)]) \<and>
   (fst (parse_service_file atoi rd path content s) \<noteq> 0 \<longrightarrow>
      snd (parse_service_file atoi rd path content s) = s \<and>
      (MAX_SERVICES \<le> length (services s) \<or> content = None))"
  by (simp add: parse_service_file_def Let_def MAX_NAME_def split: option.splits)

text \<open>
  Claim C5, as amended. \<^verbatim>\<open>load_services\<close> compares no names and has no error for a
  duplicate. With no directory it leaves the table as it is. Otherwise, unless the table
  overflows, it succeeds and appends one service for each executable script whose name
  begins with \<open>S\<close> and a digit, in directory order, named by the file name cut to 63
  characters; so, loaded into an empty table, the names are unique exactly when those
  cut names are. \<^verbatim>\<open>parse_service_file\<close>, when it succeeds, appends a service named by
  the base name of its path cut to 63 characters, whatever names the table holds; it
  fails only when the table is full or the file cannot be opened. \<^verbatim>\<open>find_service\<close>
  returns the first entry that has the name.
\<close>

theorem load_services_spec:
  "load_services None st s = Some s \<and>
   (length (services s) +
      length (filter (\<lambda>d. is_startup_script d \<and>
                st (take (MAX_PATH - 1) (SERVICES_DIR @ ''/'' @ d))) ds) \<le> MAX_SERVICES \<longrightarrow>
    (\<exists>s'. load_services (Some ds) st s = Some s' \<and>
       map name (services s') = map name (services s) @
         map (take 63)
           (filter (\<lambda>d. is_startup_script d \<and>
              st (take (MAX_PATH - 1) (SERVICES_DIR @ ''/'' @ d))) ds) \<and>
       (services s = [] \<longrightarrow>
          distinct (map name (services s')) =
          distinct (map (take 63)
            (filter (\<lambda>d. is_startup_script d \<and>
              st (take (MAX_PATH - 1) (SERVICES_DIR @ ''/'' @ d))) ds))))) \<and>
   (fst (parse_service_file atoi rd path content s) = 0 \<longrightarrow>
      map name (services (snd (parse_service_file atoi rd path content s))) =
        map name (services s) @ [take 63 (basename path)]) \<and>
   (fst (parse_service_file atoi rd path content s) \<noteq> 0 \<longrightarrow>
      snd (parse_service_file atoi rd path content s) = s \<and>
      (MAX_SERVICES \<le> length (services s) \<or> content = None)) \<and>
   (find_service s n = Some i \<longrightarrow>
      i < length (services s) \<and> name (services s ! i) = n \<and>
      (\<forall>j<i. name (services s ! j) \<noteq> n)) \<and>
   (find_service s n = None \<longrightarrow> (\<forall>j<length (services s). name (services s ! j) \<noteq> n))"
proof -
  let ?el = "filter (\<lambda>d. is_startup_script d \<and>
                st (take (MAX_PATH - 1) (SERVICES_DIR @ ''/'' @ d))) ds"
  have 1: "load_services None st s = Some s" by (simp add: load_services_def)
  have 2: "length (services s) + length ?el \<le> MAX_SERVICES \<longrightarrow>
    (\<exists>s'. load_services (Some ds) st s = Some s' \<and>
       map name (services s') = map name (services s) @ map (take 63) ?el \<and>
       (services s = [] \<longrightarrow>
          distinct (map name (services s')) = distinct (map (take 63) ?el)))"
  proof
    assume "length (services s) + length ?el \<le> MAX_SERVICES"
    from load_entries_succeeds[OF this] obtain r where r: "load_entries st ds (services s) = Some r"
      by blast
    from load_entries_names[OF r] have nm: "map name r = map name (services s) @ map (take 63) ?el"
      by (simp add: MAX_NAME_def)
    have "load_services (Some ds) st s = Some (s\<lparr>services := r\<rparr>)"
      by (simp add: load_services_def r)
    moreover have "map name (services (s\<lparr>services := r\<rparr>)) =
        map name (services s) @ map (take 63) ?el" using nm by simp
    moreover have "services s = [] \<longrightarrow>
        distinct (map name (services (s\<lparr>services := r\<rparr>))) = distinct (map (take 63) ?el)"
      using nm by simp
    ultimately show "\<exists>s'. load_services (Some ds) st s = Some s' \<and>
         map name (services s') = map name (services s) @ map (take 63) ?el \<and>
         (services s = [] \<longrightarrow>
            distinct (map name (services s')) = distinct (map (take 63) ?el))"
      by blast
  qed
  have 3: "find_service s n = Some i \<longrightarrow>
      i < length (services s) \<and> name (services s ! i) = n \<and>
      (\<forall>j<i. name (services s ! j) \<noteq> n)"
    using find_service_first by blast
  have 4: "find_service s n = None \<longrightarrow> (\<forall>j<length (services s). name (services s ! j) \<noteq> n)"
    using find_service_none by blast
  note 5 = parse_service_file_names[of atoi rd path content s]
  from 1 2 5 3 4 show ?thesis by (intro conjI) blast+
qed

lemma load_dir_long:
  "load_services (Some dir_long) (\<lambda>p. True) st_boot =
     Some (st_boot\<lparr>services :=
       [script_service (dir_long ! 0) (''/etc/init.d/'' @ dir_long ! 0),
        script_service (dir_long ! 1) (''/etc/init.d/'' @ dir_long ! 1)]\<rparr>)"
  by (simp add: dir_long_def load_services_def st_boot_def is_startup_script_def Let_def
      MAX_SERVICES_def MAX_PATH_def SERVICES_DIR_def)

text \<open>
  Claim C5, as stated, fails: the two scripts of \<open>dir_long\<close> have different file names,
  the load succeeds, and the table holds two services with the same name.
\<close>

theorem load_services_duplicate_counterexample:
  "distinct dir_long \<and>
   map_option (\<lambda>s'. map name (services s')) (load_services (Some dir_long) (\<lambda>p. True) st_boot) =
     Some [''S01'' @ replicate 60 CHR ''x'', ''S01'' @ replicate 60 CHR ''x''] \<and>
   map_option (\<lambda>s'. find_service s' (''S01'' @ replicate 60 CHR ''x''))
     (load_services (Some dir_long) (\<lambda>p. True) st_boot) = Some (Some 0)"
  unfolding load_dir_long
  by (simp add: dir_long_def script_service_def MAX_NAME_def find_service_def)

theorem load_services_spec_witness:
  "length (services st_boot) +
     length (filter (\<lambda>d. is_startup_script d \<and> True) dir_small) \<le> MAX_SERVICES \<and>
   services st_boot = [] \<and>
   map_option (\<lambda>s'. map name (services s')) (load_services (Some dir_small) (\<lambda>p. True) st_boot) =
     Some [''S01net'', ''S02log''] \<and>
   distinct [''S01net'', ''S02log''] \<and>
   fst (parse_service_file (\<lambda>v. 0) 3 ''/etc/init.d/B'' (Some [(''respawn'', ''true'')]) st_AB) = 0 \<and>
   map name (services (snd
     (parse_service_file (\<lambda>v. 0) 3 ''/etc/init.d/B'' (Some [(''respawn'', ''true'')]) st_AB))) =
     [''A'', ''B'', ''B''] \<and>
   find_service st_AB ''B'' = Some 1 \<and>
   name (services st_AB ! 1) = ''B'' \<and> name (services st_AB ! 0) \<noteq> ''B'' \<and>
   find_service st_AB ''C'' = None"
proof -
  have f: "filter (\<lambda>d. is_startup_script d \<and> True) dir_small = [''S01net'', ''S02log'']"
    by (simp add: dir_small_def is_startup_script_def)
  have h: "length (services st_boot) +
     length (filter (\<lambda>d. is_startup_script d \<and> True) dir_small) \<le> MAX_SERVICES"
    "services st_boot = []"
    unfolding f by (simp_all add: st_boot_def MAX_SERVICES_def)
  have fs: "find_service st_AB ''B'' = Some 1" "find_service st_AB ''C'' = None"
    by (simp_all add: find_service_def st_AB_def st_boot_def svc_A_def svc_B_def)
  have ps: "fst (parse_service_file (\<lambda>v. 0) 3 ''/etc/init.d/B''
      (Some [(''respawn'', ''true'')]) st_AB) = 0"
    by (simp add: parse_service_file_def Let_def MAX_SERVICES_def st_AB_def st_boot_def)
  have bn: "take 63 (basename ''/etc/init.d/B'') = ''B''"
    "map name (services st_AB) = [''A'', ''B'']"
    by (simp_all add: basename_def st_AB_def st_boot_def svc_A_def svc_B_def)
  note spec1 = load_services_spec[where st = "\<lambda>p. True" and s = st_boot and ds = dir_small
      and n = "''B''" and i = 1 and atoi = "\<lambda>v. 0" and rd = 3 and path = "''/etc/init.d/B''"
      and content = "Some [(''respawn'', ''true'')]"]
  note spec2 = load_services_spec[where st = "\<lambda>p. True" and s = st_AB and ds = dir_small
      and n = "''B''" and i = 1 and atoi = "\<lambda>v. 0" and rd = 3 and path = "''/etc/init.d/B''"
      and content = "Some [(''respawn'', ''true'')]"]
  from spec1 h obtain s' where s': "load_services (Some dir_small) (\<lambda>p. True) st_boot = Some s'"
    "map name (services s') = map name (services st_boot) @
       map (take 63) (filter (\<lambda>d. is_startup_script d \<and> True) dir_small)"
    by blast
  have nm: "map name (services s') = [''S01net'', ''S02log'']"
    unfolding s'(2) f by (simp add: st_boot_def)
  from spec2 ps have "map name (services (snd
     (parse_service_file (\<lambda>v. 0) 3 ''/etc/init.d/B'' (Some [(''respawn'', ''true'')]) st_AB))) =
     map name (services st_AB) @ [take 63 (basename ''/etc/init.d/B'')]"
    by blast
  then have pn: "map name (services (snd
     (parse_service_file (\<lambda>v. 0) 3 ''/etc/init.d/B'' (Some [(''respawn'', ''true'')]) st_AB))) =
     [''A'', ''B'', ''B'']"
    unfolding bn by simp
  from spec2 fs(1)
  have b: "name (services st_AB ! 1) = ''B''" "\<forall>j<1. name (services st_AB ! j) \<noteq> ''B''"
    by blast+
  from b(2) have b0: "name (services st_AB ! 0) \<noteq> ''B''" by simp
  from h s'(1) nm ps pn fs b(1) b0 show ?thesis by simp
qed

subsection \<open>Reaping children\<close>

lemma reap_mark_length [simp]: "length (reap_mark p vs) = length vs"
  by (induction vs) simp_all

text \<open>The part of claim C1 that holds: the first entry that records the reaped pid has
  its pid cleared and goes from RUNNING to STOPPED; the entries before it are as they
  were.\<close>

lemma reap_mark_first:
  "i < length vs \<Longrightarrow> pid (vs ! i) = p \<Longrightarrow> (\<And>j. j < i \<Longrightarrow> pid (vs ! j) \<noteq> p) \<Longrightarrow>
   reap_mark p vs =
     vs[i := (vs ! i)\<lparr>pid := 0,
          state := (if state (vs ! i) = SVC_RUNNING then SVC_STOPPED else state (vs ! i))\<rparr>]"
proof (induction vs arbitrary: i)
  case Nil
  then show ?case by simp
next
  case (Cons v vs)
  show ?case
  proof (cases i)
    case 0
    with Cons.prems show ?thesis by simp
  next
    case (Suc i')
    from Cons.prems(3)[of 0] Suc have "pid v \<noteq> p" by simp
    moreover have "reap_mark p vs =
      vs[i' := (vs ! i')\<lparr>pid := 0,
          state := (if state (vs ! i') = SVC_RUNNING then SVC_STOPPED else state (vs ! i'))\<rparr>]"
    proof (rule Cons.IH)
      show "i' < length vs" using Cons.prems(1) Suc by simp
      show "pid (vs ! i') = p" using Cons.prems(2) Suc by simp
      show "\<And>j. j < i' \<Longrightarrow> pid (vs ! j) \<noteq> p" using Cons.prems(3)[of "Suc _"] Suc by simp
    qed
    ultimately show ?thesis using Suc by simp
  qed
qed

lemma reap_mark_not_running:
  "j < length vs \<Longrightarrow> state (vs ! j) \<noteq> SVC_RUNNING \<Longrightarrow>
   state (reap_mark p vs ! j) = state (vs ! j) \<and>
   restart_count (reap_mark p vs ! j) = restart_count (vs ! j)"
proof (induction vs arbitrary: j)
  case Nil
  then show ?case by simp
next
  case (Cons v vs)
  then show ?case by (cases j) simp_all
qed

text \<open>A service that is not RUNNING is not touched by \<^verbatim>\<open>check_services\<close>, and keeps
  its state and its restart count through \<^verbatim>\<open>reap_children\<close>: no pass of the main
  loop starts it.\<close>

lemma check_service_keeps_not_running:
  assumes "state (services s ! j) \<noteq> SVC_RUNNING"
  shows "services (check_service e i s) ! j = services s ! j"
proof (cases "i = j")
  case True
  with assms show ?thesis by (simp add: check_service_not_running)
next
  case False
  then have "j \<noteq> i" by simp
  then show ?thesis
    by (simp add: check_service_def Let_def split_beta start_service_other)
qed

lemma check_services_keeps_not_running:
  assumes "state (services s ! j) \<noteq> SVC_RUNNING"
  shows "services (fold (check_service e) js s) ! j = services s ! j \<and>
         length (services (fold (check_service e) js s)) = length (services s)"
  using assms
proof (induction js arbitrary: s)
  case Nil
  then show ?case by simp
next
  case (Cons i js)
  have eq: "services (check_service e i s) ! j = services s ! j"
    using Cons.prems by (rule check_service_keeps_not_running)
  then have "state (services (check_service e i s) ! j) \<noteq> SVC_RUNNING"
    using Cons.prems by simp
  from Cons.IH[OF this] eq show ?case by simp
qed

lemma reap_loop_keeps_not_running:
  assumes r: "reap_loop e s = Some s'"
    and j: "j < length (services s)" "state (services s ! j) \<noteq> SVC_RUNNING"
  shows "length (services s') = length (services s) \<and>
         state (services s' ! j) = state (services s ! j) \<and>
         restart_count (services s' ! j) = restart_count (services s ! j)"
proof -
  have "j < length (services s) \<longrightarrow> state (services s ! j) \<noteq> SVC_RUNNING \<longrightarrow>
        length (services s') = length (services s) \<and>
        state (services s' ! j) = state (services s ! j) \<and>
        restart_count (services s' ! j) = restart_count (services s ! j)"
  proof (rule reap_loop.raw_induct[where
      P = "\<lambda>e s s'. j < length (services s) \<longrightarrow> state (services s ! j) \<noteq> SVC_RUNNING \<longrightarrow>
        length (services s') = length (services s) \<and>
        state (services s' ! j) = state (services s ! j) \<and>
        restart_count (services s' ! j) = restart_count (services s ! j)", OF _ r])
    fix rl :: "env \<Rightarrow> init_state \<Rightarrow> init_state option" and e s s'
    assume ih: "\<And>e s y. rl e s = Some y \<Longrightarrow>
        j < length (services s) \<longrightarrow> state (services s ! j) \<noteq> SVC_RUNNING \<longrightarrow>
        length (services y) = length (services s) \<and>
        state (services y ! j) = state (services s ! j) \<and>
        restart_count (services y ! j) = restart_count (services s ! j)"
      and body: "(case sys_waitpid e (- 1) True s of
          ((p, status), s1) \<Rightarrow>
            if 0 < p then rl e (s1\<lparr>services := reap_mark p (services s1)\<rparr>)
            else Some s1) = Some s'"
    let ?p = "wait_pid e (clock s) (- 1)"
    let ?s1 = "sys e (Ev_waitpid (- 1) True) s"
    let ?s2 = "?s1\<lparr>services := reap_mark ?p (services ?s1)\<rparr>"
    show "j < length (services s) \<longrightarrow> state (services s ! j) \<noteq> SVC_RUNNING \<longrightarrow>
        length (services s') = length (services s) \<and>
        state (services s' ! j) = state (services s ! j) \<and>
        restart_count (services s' ! j) = restart_count (services s ! j)"
    proof (intro impI)
      assume j: "j < length (services s)" "state (services s ! j) \<noteq> SVC_RUNNING"
      note m = reap_mark_not_running[OF j, of ?p]
      show "length (services s') = length (services s) \<and>
        state (services s' ! j) = state (services s ! j) \<and>
        restart_count (services s' ! j) = restart_count (services s ! j)"
      proof (cases "0 < ?p")
        case True
        with body have "rl e ?s2 = Some s'" by (simp add: sys_waitpid_def)
        from ih[OF this] j m show ?thesis by simp
      next
        case False
        with body have "s' = ?s1" by (simp add: sys_waitpid_def)
        then show ?thesis by simp
      qed
    qed
  qed
  with j show ?thesis by blast
qed

lemma main_iteration_keeps_not_running:
  assumes r: "main_iteration e s = Some s'"
    and j: "j < length (services s)" "state (services s ! j) \<noteq> SVC_RUNNING"
  shows "length (services s') = length (services s) \<and>
         state (services s' ! j) = state (services s ! j) \<and>
         restart_count (services s' ! j) = restart_count (services s ! j)"
proof -
  let ?s1 = "sys e (Ev_usleep 100000) s"
  obtain s2 where s2: "(if child_died ?s1 then reap_children e ?s1 else Some ?s1) = Some s2"
    and s': "s' = kick_watchdog e (check_services e s2)"
    using r by (auto simp: main_iteration_def Let_def split: option.splits)
  have k: "\<And>x. services (kick_watchdog e x) = services x"
    by (simp add: kick_watchdog_def)
  have s2_keeps: "length (services s2) = length (services s) \<and>
         state (services s2 ! j) = state (services s ! j) \<and>
         restart_count (services s2 ! j) = restart_count (services s ! j)"
  proof (cases "child_died ?s1")
    case True
    with s2 obtain s3 where s3: "reap_loop e ?s1 = Some s3" and e2: "s2 = s3\<lparr>child_died := False\<rparr>"
      by (auto simp: reap_children_def split: option.splits)
    from reap_loop_keeps_not_running[OF s3] j e2 show ?thesis by simp
  next
    case False
    with s2 show ?thesis by auto
  qed
  then have nr: "state (services s2 ! j) \<noteq> SVC_RUNNING" using j by simp
  from check_services_keeps_not_running[OF nr, of e "[0 ..< length (services s2)]"] s2_keeps
  show ?thesis
    by (simp add: s' k check_services_def)
qed

text \<open>However many passes of the main loop follow, a service that is not RUNNING keeps
  its state and its restart count: a service that \<^verbatim>\<open>reap_children\<close> has marked
  STOPPED is never started again.\<close>

lemma main_loop_keeps_not_running:
  "main_loop_n e k s = Some s' \<Longrightarrow> j < length (services s) \<Longrightarrow>
   state (services s ! j) \<noteq> SVC_RUNNING \<Longrightarrow>
   length (services s') = length (services s) \<and>
   state (services s' ! j) = state (services s ! j) \<and>
   restart_count (services s' ! j) = restart_count (services s ! j)"
proof (induction k arbitrary: s)
  case 0
  then show ?case by simp
next
  case (Suc k)
  show ?case
  proof (cases "shutdown_requested s")
    case True
    with Suc.prems show ?thesis by simp
  next
    case False
    with Suc.prems(1) obtain s1 where s1: "main_iteration e s = Some s1"
      and rest: "main_loop_n e k s1 = Some s'"
      by (auto split: option.splits)
    note a = main_iteration_keeps_not_running[OF s1 Suc.prems(2,3)]
    then have "j < length (services s1)" "state (services s1 ! j) \<noteq> SVC_RUNNING"
      using Suc.prems(2,3) by simp_all
    from Suc.IH[OF rest this] a show ?thesis by simp
  qed
qed

lemma env_reap_idle_pass:
  assumes "services s = [svc_daemon\<lparr>state := SVC_STOPPED, pid := 0\<rparr>]"
    "\<not> child_died s" "\<not> shutdown_requested s" "watchdog_fd s < 0"
  shows "main_iteration env_reap s =
    Some (s\<lparr>clock := Suc (clock s), trace := trace s @ [Ev_usleep 100000]\<rparr>)"
  using assms
  by (simp add: main_iteration_def check_services_def check_service_def kick_watchdog_def
      sys_def env_reap_def env_quiet_def Let_def)

lemma env_reap_idle_passes:
  assumes "services s = [svc_daemon\<lparr>state := SVC_STOPPED, pid := 0\<rparr>]"
    "\<not> child_died s" "\<not> shutdown_requested s" "watchdog_fd s < 0"
  shows "main_loop_n env_reap k s =
    Some (s\<lparr>clock := clock s + k, trace := trace s @ replicate k (Ev_usleep 100000)\<rparr>)"
  using assms
proof (induction k arbitrary: s)
  case 0
  then show ?case by simp
next
  case (Suc k)
  let ?s1 = "s\<lparr>clock := Suc (clock s), trace := trace s @ [Ev_usleep 100000]\<rparr>"
  have "main_loop_n env_reap k ?s1 =
    Some (?s1\<lparr>clock := clock ?s1 + k, trace := trace ?s1 @ replicate k (Ev_usleep 100000)\<rparr>)"
    by (rule Suc.IH) (use Suc.prems in simp_all)
  then show ?case
    using Suc.prems by (simp add: env_reap_idle_pass replicate_app_Cons_same)
qed

text \<open>
  Claim C1. The daemon has the RESPAWN flag and all of its five restarts left; it has
  exited and the child-death flag is set. The pass of the main loop reaps it, clears
  its pid and marks it STOPPED; \<^verbatim>\<open>check_services\<close>, which only looks at RUNNING
  services, then passes it over, and so does every later pass: the loop only sleeps,
  and the daemon is never started again.
\<close>

theorem reaped_service_not_respawned:
  "flags svc_daemon AND SVC_FLAG_RESPAWN \<noteq> 0 \<and>
   restart_count svc_daemon < max_restarts svc_daemon \<and>
   main_iteration env_reap st_reap = Some st_reaped \<and>
   state (services st_reaped ! 0) = SVC_STOPPED \<and>
   pid (services st_reaped ! 0) = 0 \<and>
   \<not> child_died st_reaped \<and>
   (\<forall>k. main_loop_n env_reap k st_reaped =
      Some (st_reaped\<lparr>clock := clock st_reaped + k,
                      trace := trace st_reaped @ replicate k (Ev_usleep 100000)\<rparr>))"
proof -
  have 1: "flags svc_daemon AND SVC_FLAG_RESPAWN \<noteq> 0 \<and>
      restart_count svc_daemon < max_restarts svc_daemon"
    by (simp add: svc_daemon_def SVC_FLAG_RESPAWN_def)
  have r2: "reap_loop env_reap
      (st_boot\<lparr>services := [svc_daemon\<lparr>pid := 0, state := SVC_STOPPED\<rparr>], child_died := True,
         clock := Suc (Suc 0), trace := [Ev_usleep 100000, Ev_waitpid (- 1) True]\<rparr>) =
      Some (st_boot\<lparr>services := [svc_daemon\<lparr>pid := 0, state := SVC_STOPPED\<rparr>], child_died := True,
         clock := 3, trace := [Ev_usleep 100000, Ev_waitpid (- 1) True, Ev_waitpid (- 1) True]\<rparr>)"
    by (subst reap_loop.simps)
      (simp add: sys_waitpid_def sys_def env_reap_def env_quiet_def st_boot_def)
  have r1: "reap_loop env_reap
      (st_boot\<lparr>services := [svc_daemon], child_died := True,
         clock := 1, trace := [Ev_usleep 100000]\<rparr>) =
      Some (st_boot\<lparr>services := [svc_daemon\<lparr>pid := 0, state := SVC_STOPPED\<rparr>], child_died := True,
         clock := 3, trace := [Ev_usleep 100000, Ev_waitpid (- 1) True, Ev_waitpid (- 1) True]\<rparr>)"
    apply (subst reap_loop.simps)
    apply (simp add: sys_waitpid_def sys_def env_reap_def env_quiet_def)
    apply (simp add: st_boot_def svc_daemon_def)
    using r2 apply (simp add: st_boot_def svc_daemon_def env_reap_def env_quiet_def)
    done
  have 2: "main_iteration env_reap st_reap = Some st_reaped"
    using r1
    by (simp add: main_iteration_def reap_children_def check_services_def check_service_def
        kick_watchdog_def sys_def env_reap_def env_quiet_def Let_def st_reap_def st_reaped_def
        st_boot_def svc_daemon_def)
  have 3: "state (services st_reaped ! 0) = SVC_STOPPED \<and> pid (services st_reaped ! 0) = 0 \<and>
      \<not> child_died st_reaped"
    by (simp add: st_reaped_def st_boot_def)
  have 4: "\<forall>k. main_loop_n env_reap k st_reaped =
      Some (st_reaped\<lparr>clock := clock st_reaped + k,
                      trace := trace st_reaped @ replicate k (Ev_usleep 100000)\<rparr>)"
    by (intro allI env_reap_idle_passes) (simp_all add: st_reaped_def st_boot_def)
  from 1 2 3 4 show ?thesis by blast
qed

subsection \<open>Stopping all services\<close>



lemma stop_service_length [simp]:
  "length (services (snd (stop_service e i s))) = length (services s)"
  by (simp add: stop_service_def Let_def split_beta sys_waitpid_def)


lemma stop_poll_globals [simp]:
  "watchdog_fd (snd (stop_poll e n p s)) = watchdog_fd s"
  "logfile (snd (stop_poll e n p s)) = logfile s"
  by (induction n arbitrary: s) (simp_all add: stop_poll_Suc)

lemma stop_service_globals [simp]:
  "watchdog_fd (snd (stop_service e i s)) = watchdog_fd s"
  "logfile (snd (stop_service e i s)) = logfile s"
  by (simp_all add: stop_service_def Let_def split_beta sys_waitpid_def)







subsection \<open>The shutdown sequence\<close>

lemma stop_watchdog_frame [simp]:
  "services (stop_watchdog e s) = services s"
  "logfile (stop_watchdog e s) = logfile s"
  "trace (stop_watchdog e s) = trace s @
     (if 0 \<le> watchdog_fd s
      then [Ev_write (watchdog_fd s) CHR ''V'', Ev_close (watchdog_fd s)] else [])"
  by (simp_all add: stop_watchdog_def Let_def)












subsection \<open>Reboot or halt\<close>




end
